theory Spec2Isabelle
  imports Main "HOL-Library.Sublist" "HOL-Library.Multiset"
begin

section \<open>Bytes and the Go library functions the codec calls\<close>

text \<open>
  A Go \<^verbatim>\<open>string\<close> and a \<^verbatim>\<open>[]byte\<close> are both sequences of bytes; the model writes
  them as \<^typ>\<open>string\<close> (a list of 8-bit characters). A nil slice and an empty slice
  are both the empty list.

  The functions of this section belong to the Go library (\<^verbatim>\<open>strings\<close>, \<^verbatim>\<open>bytes\<close>,
  \<^verbatim>\<open>strconv\<close>, \<^verbatim>\<open>time\<close>, \<^verbatim>\<open>bufio\<close>), not to the repository. They are modelled from
  their documented behaviour.
\<close>

subsection \<open>White space\<close>

text \<open>
  \<^verbatim>\<open>strings.TrimSpace\<close> and \<^verbatim>\<open>strings.Fields\<close> read the string as UTF-8 and take for white
  space the runes of \<^verbatim>\<open>unicode.IsSpace\<close>: the six ASCII characters tab, line feed,
  vertical tab, form feed, carriage return and space, then U+0085, U+00A0, U+1680,
  U+2000 to U+200A, U+2028, U+2029, U+202F, U+205F and U+3000. \<open>White_Space\<close> lists
  their UTF-8 encodings. The decoder of the library accepts the shortest encoding of a
  rune only and reads every other byte sequence as U+FFFD, one byte wide, which is not
  white space; so a string starts (or ends) with a white-space rune exactly when it
  starts (or ends) with one of the listed byte sequences.
\<close>

definition White_Space :: "string list" where
  "White_Space =
     [[CHR 0x09], [CHR 0x0A], [CHR 0x0B], [CHR 0x0C], [CHR 0x0D], [CHR 0x20],
      [CHR 0xC2, CHR 0x85], [CHR 0xC2, CHR 0xA0],
      [CHR 0xE1, CHR 0x9A, CHR 0x80],
      [CHR 0xE2, CHR 0x80, CHR 0x80], [CHR 0xE2, CHR 0x80, CHR 0x81],
      [CHR 0xE2, CHR 0x80, CHR 0x82], [CHR 0xE2, CHR 0x80, CHR 0x83],
      [CHR 0xE2, CHR 0x80, CHR 0x84], [CHR 0xE2, CHR 0x80, CHR 0x85],
      [CHR 0xE2, CHR 0x80, CHR 0x86], [CHR 0xE2, CHR 0x80, CHR 0x87],
      [CHR 0xE2, CHR 0x80, CHR 0x88], [CHR 0xE2, CHR 0x80, CHR 0x89],
      [CHR 0xE2, CHR 0x80, CHR 0x8A],
      [CHR 0xE2, CHR 0x80, CHR 0xA8], [CHR 0xE2, CHR 0x80, CHR 0xA9],
      [CHR 0xE2, CHR 0x80, CHR 0xAF],
      [CHR 0xE2, CHR 0x81, CHR 0x9F],
      [CHR 0xE3, CHR 0x80, CHR 0x80]]"

text \<open>The width in bytes of the white-space rune a string starts with, and of the one
  it ends with; 0 when there is none.\<close>

definition spaceWidth :: "string \<Rightarrow> nat" where
  "spaceWidth s = (case find (\<lambda>e. prefix e s) White_Space of None \<Rightarrow> 0 | Some e \<Rightarrow> length e)"

definition lastSpaceWidth :: "string \<Rightarrow> nat" where
  "lastSpaceWidth s = (case find (\<lambda>e. suffix e s) White_Space of None \<Rightarrow> 0 | Some e \<Rightarrow> length e)"

lemma White_Space_nonempty: "e \<in> set White_Space \<Longrightarrow> e \<noteq> []"
  by (auto simp: White_Space_def)

lemma spaceWidth_prefix:
  "spaceWidth s \<noteq> 0 \<Longrightarrow> take (spaceWidth s) s \<in> set White_Space \<and> 0 < spaceWidth s \<and> spaceWidth s \<le> length s"
proof -
  assume a: "spaceWidth s \<noteq> 0"
  then obtain e where e: "find (\<lambda>e. prefix e s) White_Space = Some e"
    by (cases "find (\<lambda>e. prefix e s) White_Space") (auto simp: spaceWidth_def)
  then have p: "prefix e s" "e \<in> set White_Space"
    by (auto simp: find_Some_iff)
  from p(1) obtain r where "s = e @ r" by (auto simp: prefix_def)
  with e p(2) White_Space_nonempty [OF p(2)] show ?thesis by (simp add: spaceWidth_def)
qed

lemma lastSpaceWidth_suffix:
  "lastSpaceWidth s \<noteq> 0 \<Longrightarrow>
     drop (length s - lastSpaceWidth s) s \<in> set White_Space \<and> 0 < lastSpaceWidth s \<and> lastSpaceWidth s \<le> length s"
proof -
  assume a: "lastSpaceWidth s \<noteq> 0"
  then obtain e where e: "find (\<lambda>e. suffix e s) White_Space = Some e"
    by (cases "find (\<lambda>e. suffix e s) White_Space") (auto simp: lastSpaceWidth_def)
  then have p: "suffix e s" "e \<in> set White_Space"
    by (auto simp: find_Some_iff)
  from p(1) obtain r where "s = r @ e" by (auto simp: suffix_def)
  with e p(2) White_Space_nonempty [OF p(2)] show ?thesis by (simp add: lastSpaceWidth_def)
qed

text \<open>\<^verbatim>\<open>strings.TrimLeftFunc\<close> and \<^verbatim>\<open>strings.TrimRightFunc\<close> with \<^verbatim>\<open>unicode.IsSpace\<close>.\<close>

function TrimLeft :: "string \<Rightarrow> string" where
  "TrimLeft s = (if spaceWidth s = 0 then s else TrimLeft (drop (spaceWidth s) s))"
  by pat_completeness auto
termination
proof (relation "measure length")
  show "wf (measure length)" by simp
next
  fix s :: string
  assume "spaceWidth s \<noteq> 0"
  from spaceWidth_prefix [OF this]
  have "0 < spaceWidth s" "spaceWidth s \<le> length s" by simp_all
  then show "(drop (spaceWidth s) s, s) \<in> measure length" by simp
qed

function TrimRight :: "string \<Rightarrow> string" where
  "TrimRight s = (if lastSpaceWidth s = 0 then s else TrimRight (take (length s - lastSpaceWidth s) s))"
  by pat_completeness auto
termination
proof (relation "measure length")
  show "wf (measure length)" by simp
next
  fix s :: string
  assume "lastSpaceWidth s \<noteq> 0"
  from lastSpaceWidth_suffix [OF this]
  have "0 < lastSpaceWidth s" "lastSpaceWidth s \<le> length s" by simp_all
  then show "(take (length s - lastSpaceWidth s) s, s) \<in> measure length" by simp
qed

declare TrimLeft.simps [simp del] TrimRight.simps [simp del]

text \<open>\<^verbatim>\<open>strings.TrimSpace\<close>: the white-space runes at the start are cut, then those at
  the end of what is left.\<close>

definition TrimSpace :: "string \<Rightarrow> string" where
  "TrimSpace s = TrimRight (TrimLeft s)"

text \<open>\<^verbatim>\<open>strings.Fields\<close>: the maximal runs of runes that are not white space. \<open>word\<close>
  is the text up to the next white-space rune; no white-space rune starts inside
  another rune, so the search goes byte by byte.\<close>

fun word :: "string \<Rightarrow> string" where
  "word [] = []"
| "word (c # cs) = (if spaceWidth (c # cs) \<noteq> 0 then [] else c # word cs)"

lemma length_TrimLeft: "length (TrimLeft s) \<le> length s"
proof (induction s rule: TrimLeft.induct)
  case (1 s)
  show ?case
  proof (cases "spaceWidth s = 0")
    case True
    then show ?thesis by (simp add: TrimLeft.simps [of s])
  next
    case False
    from "1.IH" [OF False] show ?thesis
      by (simp add: TrimLeft.simps [of s] False)
  qed
qed

lemma spaceWidth_TrimLeft: "spaceWidth (TrimLeft s) = 0"
proof (induction s rule: TrimLeft.induct)
  case (1 s)
  then show ?case by (cases "spaceWidth s = 0") (simp_all add: TrimLeft.simps [of s])
qed

function strings_Fields :: "string \<Rightarrow> string list" where
  "strings_Fields s =
     (let t = TrimLeft s
      in if t = [] then [] else word t # strings_Fields (drop (length (word t)) t))"
  by pat_completeness auto
termination
proof (relation "measure length")
  show "wf (measure length)" by simp
next
  fix s :: string and t :: string
  assume t: "t = TrimLeft s" and ne: "t \<noteq> []"
  obtain c cs where c: "t = c # cs" using ne by (cases t) auto
  have "spaceWidth t = 0" using t by (simp add: spaceWidth_TrimLeft)
  then have "word t = c # word cs" using c by simp
  then have "length (drop (length (word t)) t) < length t" using c by simp
  also have "length t \<le> length s" using t by (simp add: length_TrimLeft)
  finally show "(drop (length (word t)) t, s) \<in> measure length" by simp
qed

declare strings_Fields.simps [simp del]

subsection \<open>Text\<close>

definition HasPrefix :: "string \<Rightarrow> string \<Rightarrow> bool" where
  "HasPrefix s p = prefix p s"

definition TrimPrefix :: "string \<Rightarrow> string \<Rightarrow> string" where
  "TrimPrefix s p = (if HasPrefix s p then drop (length p) s else s)"

text \<open>\<^verbatim>\<open>strings.Split(s, sep)\<close> for a one-byte separator.\<close>

fun Split :: "string \<Rightarrow> char \<Rightarrow> string list" where
  "Split [] sep = [[]]"
| "Split (c # cs) sep =
     (if c = sep then [] # Split cs sep
      else (case Split cs sep of [] \<Rightarrow> [[c]] | w # ws \<Rightarrow> (c # w) # ws))"

text \<open>\<^verbatim>\<open>strings.SplitN(s, sep, 2)\<close> for a one-byte separator: the text before the first
  separator and the text after it, or the string alone when it has no separator.\<close>

definition SplitN2 :: "string \<Rightarrow> char \<Rightarrow> string list" where
  "SplitN2 s sep =
     (if sep \<in> set s
      then [takeWhile (\<lambda>c. c \<noteq> sep) s, tl (dropWhile (\<lambda>c. c \<noteq> sep) s)]
      else [s])"

text \<open>\<^verbatim>\<open>strings.Join\<close>.\<close>

fun Join :: "string list \<Rightarrow> string \<Rightarrow> string" where
  "Join [] sep = []"
| "Join [x] sep = x"
| "Join (x # y # ys) sep = x @ sep @ Join (y # ys) sep"

text \<open>The line end \<^verbatim>\<open>\r\n\<close> the encoder writes.\<close>

definition CRLF :: string where "CRLF = [CHR 0x0D, CHR 0x0A]"

subsection \<open>Decimal numbers\<close>

definition isDigit :: "char \<Rightarrow> bool" where
  "isDigit c = (48 \<le> (of_char c :: int) \<and> (of_char c :: int) \<le> 57)"

definition digitVal :: "char \<Rightarrow> int" where
  "digitVal c = of_char c - 48"

definition digitChar :: "int \<Rightarrow> char" where
  "digitChar d = char_of (48 + d)"

text \<open>The value of a run of decimal digits; \<open>None\<close> when the text is empty or has
  another character (the syntax error of \<^verbatim>\<open>strconv\<close>).\<close>

definition atoi :: "string \<Rightarrow> int option" where
  "atoi s = (if s \<noteq> [] \<and> list_all isDigit s
             then Some (foldl (\<lambda>n c. 10 * n + digitVal c) 0 s) else None)"

text \<open>\<^verbatim>\<open>strconv.ParseInt(s, 10, 64)\<close>. The result is the value and whether the error is
  nil. On a syntax error the value is 0; on a range error it is the nearest 64-bit
  bound. The caller that discards the error still reads the value.\<close>

definition ParseInt :: "string \<Rightarrow> int \<times> bool" where
  "ParseInt s =
     (case s of
        [] \<Rightarrow> (0, False)
      | c # cs \<Rightarrow>
          (let neg = (c = CHR ''-'');
               ds = (if c = CHR ''+'' \<or> c = CHR ''-'' then cs else s)
           in case atoi ds of
                None \<Rightarrow> (0, False)
              | Some n \<Rightarrow>
                  if \<not> neg \<and> n \<ge> 2 ^ 63 then (2 ^ 63 - 1, False)
                  else if neg \<and> n > 2 ^ 63 then (- (2 ^ 63), False)
                  else (if neg then - n else n, True)))"

text \<open>\<^verbatim>\<open>strconv.FormatUint(n, 10)\<close> and \<^verbatim>\<open>strconv.FormatInt(n, 10)\<close>. \<open>digits\<close> writes
  a number that is not negative, most significant digit first.\<close>

function digits :: "int \<Rightarrow> string" where
  "digits i = (if i < 10 then [digitChar i] else digits (i div 10) @ [digitChar (i mod 10)])"
  by pat_completeness auto
termination
  by (relation "measure nat") auto

declare digits.simps [simp del]

definition FormatUint :: "nat \<Rightarrow> string" where
  "FormatUint n = digits (int n)"

definition FormatInt :: "int \<Rightarrow> string" where
  "FormatInt i = (if i < 0 then CHR ''-'' # digits (- i) else digits i)"

subsection \<open>Time values\<close>

text \<open>
  A \<^verbatim>\<open>time.Time\<close> is an instant and a zone to show it in. The model keeps the civil date
  and time of day that the value shows in its zone, the nanoseconds within the second,
  and the offset of the zone east of UTC in seconds. \<^verbatim>\<open>Format\<close> and \<^verbatim>\<open>IsZero\<close>, the two
  methods the codec calls, depend on nothing else. The zero value is January 1 of
  year 1, 00:00:00 UTC, and \<^verbatim>\<open>IsZero\<close> holds for every value at that instant.
\<close>

record time =
  year :: int
  month :: int
  day :: int
  hour :: int
  minute :: int
  second :: int
  nanosecond :: int
  offset :: int

text \<open>\<^verbatim>\<open>time.Date(y, mo, d, h, mi, s, 0, time.UTC)\<close>.\<close>

definition UTC :: "int \<Rightarrow> int \<Rightarrow> int \<Rightarrow> int \<Rightarrow> int \<Rightarrow> int \<Rightarrow> time" where
  "UTC y mo d h mi s =
     \<lparr>year = y, month = mo, day = d, hour = h, minute = mi, second = s, nanosecond = 0, offset = 0\<rparr>"

definition zero_time :: time where
  "zero_time = UTC 1 1 1 0 0 0"

definition isLeap :: "int \<Rightarrow> bool" where
  "isLeap y = (y mod 4 = 0 \<and> (y mod 100 \<noteq> 0 \<or> y mod 400 = 0))"

definition daysIn :: "int \<Rightarrow> int \<Rightarrow> int" where
  "daysIn m y =
     (if m = 2 then (if isLeap y then 29 else 28)
      else if m \<in> {4, 6, 9, 11} then 30 else 31)"

text \<open>The days from January 1 of year 1 to a civil date, and the seconds from the zero
  instant to a time value.\<close>

definition daysSinceEpoch :: "int \<Rightarrow> int \<Rightarrow> int \<Rightarrow> int" where
  "daysSinceEpoch y mo d =
     (let p = y - 1
      in 365 * p + p div 4 - p div 100 + p div 400
         + sum_list (map (\<lambda>m. daysIn m y) [1 .. mo - 1]) + (d - 1))"

definition absSeconds :: "time \<Rightarrow> int" where
  "absSeconds t =
     daysSinceEpoch (year t) (month t) (day t) * 86400
       + hour t * 3600 + minute t * 60 + second t - offset t"

definition IsZero :: "time \<Rightarrow> bool" where
  "IsZero t = (absSeconds t = 0 \<and> nanosecond t = 0)"

text \<open>\<^verbatim>\<open>appendInt\<close>: a number in decimal, with zeros in front up to the width.\<close>

definition pad :: "nat \<Rightarrow> int \<Rightarrow> string" where
  "pad w n =
     (if n < 0 then CHR ''-'' # replicate (w - length (digits (- n))) (CHR ''0'') @ digits (- n)
      else replicate (w - length (digits n)) (CHR ''0'') @ digits n)"

text \<open>
  A layout is a sequence of chunks: a field of the reference time or a literal byte.
  The repository uses two layouts, \<^verbatim>\<open>time.RFC3339\<close> (\<^verbatim>\<open>2006-01-02T15:04:05Z07:00\<close>) and
  the CDX layout \<^verbatim>\<open>20060102150405\<close>.
\<close>

datatype std =
    stdLongYear | stdZeroMonth | stdZeroDay | stdHour | stdZeroMinute | stdZeroSecond
  | stdISO8601ColonTZ | literal char

datatype layout = RFC3339 | CDXTimestampFormat

fun chunks_of :: "layout \<Rightarrow> std list" where
  "chunks_of RFC3339 =
     [stdLongYear, literal (CHR ''-''), stdZeroMonth, literal (CHR ''-''), stdZeroDay,
      literal (CHR ''T''), stdHour, literal (CHR '':''), stdZeroMinute, literal (CHR '':''),
      stdZeroSecond, stdISO8601ColonTZ]"
| "chunks_of CDXTimestampFormat =
     [stdLongYear, stdZeroMonth, stdZeroDay, stdHour, stdZeroMinute, stdZeroSecond]"

text \<open>\<^verbatim>\<open>Format\<close>. The zone is written \<^verbatim>\<open>Z\<close> when the offset is zero, and as sign, hours
  and minutes otherwise; the division of the offset by 60 truncates toward zero.\<close>

definition zoneMinutes :: "int \<Rightarrow> int" where
  "zoneMinutes off = (if off < 0 then - ((- off) div 60) else off div 60)"

fun format_std :: "std \<Rightarrow> time \<Rightarrow> string" where
  "format_std stdLongYear t = pad 4 (year t)"
| "format_std stdZeroMonth t = pad 2 (month t)"
| "format_std stdZeroDay t = pad 2 (day t)"
| "format_std stdHour t = pad 2 (hour t)"
| "format_std stdZeroMinute t = pad 2 (minute t)"
| "format_std stdZeroSecond t = pad 2 (second t)"
| "format_std stdISO8601ColonTZ t =
     (if offset t = 0 then ''Z''
      else (let z = zoneMinutes (offset t)
            in (if z < 0 then ''-'' else ''+'')
               @ pad 2 (\<bar>z\<bar> div 60) @ '':'' @ pad 2 (\<bar>z\<bar> mod 60)))"
| "format_std (literal c) t = [c]"

definition time_Format :: "layout \<Rightarrow> time \<Rightarrow> string" where
  "time_Format l t = concat (map (\<lambda>c. format_std c t) (chunks_of l))"

text \<open>
  \<^verbatim>\<open>Parse\<close> goes through the layout chunk by chunk, each chunk taking its text from the
  front of the value. \<open>getnum\<close> reads a number of two digits, or of one digit when the
  width is not fixed. The hour is the one field whose width is not fixed. After the
  seconds, a period or comma followed by digits is read as a fraction of a second even
  though the layout has none; digits after the ninth are dropped. The zone is \<^verbatim>\<open>Z\<close> or
  a sign, two digits, a colon and two digits, with hours up to 24 and minutes up to 60.
  The day is checked against the month once all chunks are read, and text left over
  is an error.
\<close>

definition getnum :: "string \<Rightarrow> bool \<Rightarrow> (int \<times> string) option" where
  "getnum s fixed =
     (case s of
        [] \<Rightarrow> None
      | c # cs \<Rightarrow>
          if \<not> isDigit c then None
          else (case cs of
                  [] \<Rightarrow> if fixed then None else Some (digitVal c, cs)
                | d # ds \<Rightarrow>
                    if isDigit d then Some (digitVal c * 10 + digitVal d, ds)
                    else if fixed then None else Some (digitVal c, cs)))"

definition commaOrPeriod :: "char \<Rightarrow> bool" where
  "commaOrPeriod c = (c = CHR ''.'' \<or> c = CHR '','')"

definition parseNanoseconds :: "string \<Rightarrow> int" where
  "parseNanoseconds ds =
     (let ds9 = take 9 ds
      in foldl (\<lambda>n c. 10 * n + digitVal c) 0 ds9 * 10 ^ (9 - length ds9))"

definition fraction :: "string \<Rightarrow> int \<times> string" where
  "fraction v =
     (case v of
        c # d # ds \<Rightarrow>
          if commaOrPeriod c \<and> isDigit d
          then (parseNanoseconds (takeWhile isDigit (d # ds)), dropWhile isDigit (d # ds))
          else (0, v)
      | _ \<Rightarrow> (0, v))"

definition parseZone :: "string \<Rightarrow> (int \<times> string) option" where
  "parseZone v =
     (case v of
        [] \<Rightarrow> None
      | c # cs \<Rightarrow>
          if c = CHR ''Z'' then Some (0, cs)
          else if length v < 6 \<or> v ! 3 \<noteq> CHR '':'' then None
          else (case (getnum (take 2 cs) True, getnum (take 2 (drop 4 v)) True) of
                  (Some (hr, _), Some (mm, _)) \<Rightarrow>
                    if hr > 24 \<or> mm > 60 then None
                    else if c = CHR ''+'' then Some ((hr * 60 + mm) * 60, drop 6 v)
                    else if c = CHR ''-'' then Some (- ((hr * 60 + mm) * 60), drop 6 v)
                    else None
                | _ \<Rightarrow> None))"

fun parse_std :: "std \<Rightarrow> time \<Rightarrow> string \<Rightarrow> (time \<times> string) option" where
  "parse_std stdLongYear t v =
     (if length v < 4 then None
      else (case atoi (take 4 v) of
              None \<Rightarrow> None
            | Some y \<Rightarrow> Some (t\<lparr>year := y\<rparr>, drop 4 v)))"
| "parse_std stdZeroMonth t v =
     (case getnum v True of
        None \<Rightarrow> None
      | Some (n, r) \<Rightarrow> if n \<le> 0 \<or> 12 < n then None else Some (t\<lparr>month := n\<rparr>, r))"
| "parse_std stdZeroDay t v =
     (case getnum v True of
        None \<Rightarrow> None
      | Some (n, r) \<Rightarrow> Some (t\<lparr>day := n\<rparr>, r))"
| "parse_std stdHour t v =
     (case getnum v False of
        None \<Rightarrow> None
      | Some (n, r) \<Rightarrow> if 24 \<le> n then None else Some (t\<lparr>hour := n\<rparr>, r))"
| "parse_std stdZeroMinute t v =
     (case getnum v True of
        None \<Rightarrow> None
      | Some (n, r) \<Rightarrow> if 60 \<le> n then None else Some (t\<lparr>minute := n\<rparr>, r))"
| "parse_std stdZeroSecond t v =
     (case getnum v True of
        None \<Rightarrow> None
      | Some (n, r) \<Rightarrow>
          if 60 \<le> n then None
          else (case fraction r of (ns, r') \<Rightarrow> Some (t\<lparr>second := n, nanosecond := ns\<rparr>, r')))"
| "parse_std stdISO8601ColonTZ t v =
     (case parseZone v of
        None \<Rightarrow> None
      | Some (off, r) \<Rightarrow> Some (t\<lparr>offset := off\<rparr>, r))"
| "parse_std (literal c) t v =
     (case v of
        [] \<Rightarrow> None
      | d # r \<Rightarrow> if d = c then Some (t, r) else None)"

fun parse :: "std list \<Rightarrow> time \<Rightarrow> string \<Rightarrow> time option" where
  "parse [] t v =
     (if v \<noteq> [] then None
      else if day t < 1 \<or> day t > daysIn (month t) (year t) then None
      else Some t)"
| "parse (c # cs) t v =
     (case parse_std c t v of
        None \<Rightarrow> None
      | Some (t', v') \<Rightarrow> parse cs t' v')"

definition time_Parse :: "layout \<Rightarrow> string \<Rightarrow> time option" where
  "time_Parse l v = parse (chunks_of l) (UTC 0 1 1 0 0 0) v"

lemma IsZero_zero_time: "IsZero zero_time"
  by (simp add: IsZero_def absSeconds_def daysSinceEpoch_def zero_time_def UTC_def)

lemma time_Parse_empty: "time_Parse l [] = None"
  by (cases l) (simp_all add: time_Parse_def)

section \<open>CDX records\<close>

text \<open>
  The data of package \<^verbatim>\<open>cdx\<close> (\<^verbatim>\<open>cdx.go\<close>). A \<^verbatim>\<open>CDXField\<close> is a rune; the decoder makes
  one from a single byte of the header line, so the model writes it as a character.
  \<open>string_of_rune\<close> is the conversion \<^verbatim>\<open>string(field)\<close>: the UTF-8 encoding, one byte below
  0x80 and two bytes from there on.
\<close>

type_synonym CDXField = char

type_synonym CDXFormat = "CDXField list"

definition string_of_rune :: "CDXField \<Rightarrow> string" where
  "string_of_rune c =
     (if (of_char c :: nat) < 128 then [c]
      else [char_of (192 + (of_char c :: nat) div 64), char_of (128 + (of_char c :: nat) mod 64)])"

definition CDX9 :: CDXFormat where
  "CDX9 = ''NbamskrVg''"

definition CDX11 :: CDXFormat where
  "CDX11 = ''NbamskrMSVg''"

record CDXRecord =
  CanonizedURL :: string
  NewsGroup :: string
  RulespaceCategory :: string
  CanonizedFrame :: string
  CanonizedHost :: string
  CanonizedImage :: string
  CanonizedJump :: string
  CanonizedLink :: string
  MassagedURL :: string
  CanonizedPath :: string
  CanonizedRedirect :: string
  OriginalURL :: string
  OriginalHost :: string
  OriginalPath :: string
  Date :: time
  IP :: string
  Language :: string
  Port :: int
  Title :: string
  MetaTags :: string
  OldChecksum :: string
  NewChecksum :: string
  CompressedSize :: int
  ArcDocumentLength :: int
  CompressedDatOffset :: int
  UncompressedDatOffset :: int
  CompressedArcOffset :: int
  UncompressedArcOffset :: int
  Frame :: string
  Image :: string
  JumpPoint :: string
  Link :: string
  URLsInHref :: string
  URLsInSrc :: string
  URLsInScript :: string
  MIMEType :: string
  StatusCode :: int
  Redirect :: string
  Filename :: string
  FBIS :: string
  Uniqueness :: string

text \<open>The zero value \<^verbatim>\<open>CDXRecord{}\<close>.\<close>

definition zero_CDXRecord :: CDXRecord where
  "zero_CDXRecord =
     \<lparr>CanonizedURL = [], NewsGroup = [], RulespaceCategory = [], CanonizedFrame = [],
      CanonizedHost = [], CanonizedImage = [], CanonizedJump = [], CanonizedLink = [],
      MassagedURL = [], CanonizedPath = [], CanonizedRedirect = [], OriginalURL = [],
      OriginalHost = [], OriginalPath = [], Date = zero_time, IP = [], Language = [],
      Port = 0, Title = [], MetaTags = [], OldChecksum = [], NewChecksum = [],
      CompressedSize = 0, ArcDocumentLength = 0, CompressedDatOffset = 0,
      UncompressedDatOffset = 0, CompressedArcOffset = 0, UncompressedArcOffset = 0,
      Frame = [], Image = [], JumpPoint = [], Link = [], URLsInHref = [], URLsInSrc = [],
      URLsInScript = [], MIMEType = [], StatusCode = 0, Redirect = [], Filename = [],
      FBIS = [], Uniqueness = []\<rparr>"

record CDXHeader =
  Format :: CDXFormat
  Fields :: "CDXField list"
  Delimiter :: char

record CDXFile =
  Header :: CDXHeader
  Records :: "CDXRecord list"

text \<open>The fields of \<^verbatim>\<open>CDXRecord\<close> in declaration order, and the \<^verbatim>\<open>cdx\<close> tag of each.\<close>

datatype cname =
    CCanonizedURL | CNewsGroup | CRulespaceCategory | CCanonizedFrame | CCanonizedHost
  | CCanonizedImage | CCanonizedJump | CCanonizedLink | CMassagedURL | CCanonizedPath
  | CCanonizedRedirect | COriginalURL | COriginalHost | COriginalPath | CDate | CIP
  | CLanguage | CPort | CTitle | CMetaTags | COldChecksum | CNewChecksum | CCompressedSize
  | CArcDocumentLength | CCompressedDatOffset | CUncompressedDatOffset
  | CCompressedArcOffset | CUncompressedArcOffset | CFrame | CImage | CJumpPoint | CLink
  | CURLsInHref | CURLsInSrc | CURLsInScript | CMIMEType | CStatusCode | CRedirect
  | CFilename | CFBIS | CUniqueness

definition CDXRecord_fields :: "cname list" where
  "CDXRecord_fields =
     [CCanonizedURL, CNewsGroup, CRulespaceCategory, CCanonizedFrame, CCanonizedHost,
      CCanonizedImage, CCanonizedJump, CCanonizedLink, CMassagedURL, CCanonizedPath,
      CCanonizedRedirect, COriginalURL, COriginalHost, COriginalPath, CDate, CIP,
      CLanguage, CPort, CTitle, CMetaTags, COldChecksum, CNewChecksum, CCompressedSize,
      CArcDocumentLength, CCompressedDatOffset, CUncompressedDatOffset,
      CCompressedArcOffset, CUncompressedArcOffset, CFrame, CImage, CJumpPoint, CLink,
      CURLsInHref, CURLsInSrc, CURLsInScript, CMIMEType, CStatusCode, CRedirect,
      CFilename, CFBIS, CUniqueness]"

primrec Tag_Get_cdx :: "cname \<Rightarrow> string" where
  "Tag_Get_cdx CCanonizedURL = ''A''"
| "Tag_Get_cdx CNewsGroup = ''B''"
| "Tag_Get_cdx CRulespaceCategory = ''C''"
| "Tag_Get_cdx CCanonizedFrame = ''F''"
| "Tag_Get_cdx CCanonizedHost = ''H''"
| "Tag_Get_cdx CCanonizedImage = ''I''"
| "Tag_Get_cdx CCanonizedJump = ''J''"
| "Tag_Get_cdx CCanonizedLink = ''L''"
| "Tag_Get_cdx CMassagedURL = ''N''"
| "Tag_Get_cdx CCanonizedPath = ''P''"
| "Tag_Get_cdx CCanonizedRedirect = ''R''"
| "Tag_Get_cdx COriginalURL = ''a''"
| "Tag_Get_cdx COriginalHost = ''h''"
| "Tag_Get_cdx COriginalPath = ''p''"
| "Tag_Get_cdx CDate = ''b''"
| "Tag_Get_cdx CIP = ''e''"
| "Tag_Get_cdx CLanguage = ''Q''"
| "Tag_Get_cdx CPort = ''o''"
| "Tag_Get_cdx CTitle = ''t''"
| "Tag_Get_cdx CMetaTags = ''M''"
| "Tag_Get_cdx COldChecksum = ''c''"
| "Tag_Get_cdx CNewChecksum = ''k''"
| "Tag_Get_cdx CCompressedSize = ''S''"
| "Tag_Get_cdx CArcDocumentLength = ''n''"
| "Tag_Get_cdx CCompressedDatOffset = ''D''"
| "Tag_Get_cdx CUncompressedDatOffset = ''d''"
| "Tag_Get_cdx CCompressedArcOffset = ''V''"
| "Tag_Get_cdx CUncompressedArcOffset = ''v''"
| "Tag_Get_cdx CFrame = ''f''"
| "Tag_Get_cdx CImage = ''i''"
| "Tag_Get_cdx CJumpPoint = ''j''"
| "Tag_Get_cdx CLink = ''l''"
| "Tag_Get_cdx CURLsInHref = ''x''"
| "Tag_Get_cdx CURLsInSrc = ''y''"
| "Tag_Get_cdx CURLsInScript = ''z''"
| "Tag_Get_cdx CMIMEType = ''m''"
| "Tag_Get_cdx CStatusCode = ''s''"
| "Tag_Get_cdx CRedirect = ''r''"
| "Tag_Get_cdx CFilename = ''g''"
| "Tag_Get_cdx CFBIS = ''K''"
| "Tag_Get_cdx CUniqueness = ''U''"

section \<open>WARC records\<close>

text \<open>
  The struct \<^verbatim>\<open>WARCRecord\<close> of \<^verbatim>\<open>warc.go\<close> (the packages \<^verbatim>\<open>gwarc\<close> and \<^verbatim>\<open>warc\<close> declare
  it alike). \<^verbatim>\<open>WARCVariant\<close>, \<^verbatim>\<open>WARCRecordType\<close> and \<^verbatim>\<open>TruncatedReason\<close> are string
  types; \<^verbatim>\<open>uint64\<close> fields are naturals and the \<^verbatim>\<open>int\<close> field an integer (the values the
  codec stores come from a 64-bit parse).
\<close>

record WARCRecord =
  Version :: string
  RecordID :: string
  ContentLength :: nat
  Date :: time
  Type :: string
  ContentType :: string
  ConcurrentTo :: "string list"
  BlockDigest :: string
  PayloadDigest :: string
  IPAddress :: string
  RefersTo :: string
  RefersToTargetURI :: string
  RefersToDate :: time
  TargetURI :: string
  Truncated :: string
  WarcinfoID :: string
  Filename :: string
  Profile :: string
  IdentifiedPayloadType :: string
  SegmentNumber :: int
  SegmentOriginID :: string
  SegmentTotalLength :: nat
  Content :: string

definition WARCVariant1_0 :: string where "WARCVariant1_0 = ''1.0''"
definition WARCVariant1_1 :: string where "WARCVariant1_1 = ''1.1''"

text \<open>The zero value of the struct, which \<^verbatim>\<open>var r WARCRecord\<close> declares.\<close>

definition zero_WARCRecord :: WARCRecord where
  "zero_WARCRecord =
     \<lparr>Version = [], RecordID = [], ContentLength = 0, Date = zero_time, Type = [],
      ContentType = [], ConcurrentTo = [], BlockDigest = [], PayloadDigest = [],
      IPAddress = [], RefersTo = [], RefersToTargetURI = [], RefersToDate = zero_time,
      TargetURI = [], Truncated = [], WarcinfoID = [], Filename = [], Profile = [],
      IdentifiedPayloadType = [], SegmentNumber = 0, SegmentOriginID = [],
      SegmentTotalLength = 0, Content = []\<rparr>"

subsection \<open>Reflection over the struct\<close>

text \<open>
  \<^verbatim>\<open>Marshal\<close> and \<^verbatim>\<open>Unmarshal\<close> walk the struct with package \<^verbatim>\<open>reflect\<close>: field \<open>i\<close> has a
  name, a \<^verbatim>\<open>warc\<close> tag and a value of some kind. \<open>WARCRecord_fields\<close> lists the fields in
  declaration order; \<open>rvalue\<close> is a \<^verbatim>\<open>reflect.Value\<close>, its constructor the kind.
\<close>

datatype fname =
    FVersion | FRecordID | FContentLength | FDate | FType | FContentType | FConcurrentTo
  | FBlockDigest | FPayloadDigest | FIPAddress | FRefersTo | FRefersToTargetURI
  | FRefersToDate | FTargetURI | FTruncated | FWarcinfoID | FFilename | FProfile
  | FIdentifiedPayloadType | FSegmentNumber | FSegmentOriginID | FSegmentTotalLength
  | FContent

definition WARCRecord_fields :: "fname list" where
  "WARCRecord_fields =
     [FVersion, FRecordID, FContentLength, FDate, FType, FContentType, FConcurrentTo,
      FBlockDigest, FPayloadDigest, FIPAddress, FRefersTo, FRefersToTargetURI,
      FRefersToDate, FTargetURI, FTruncated, FWarcinfoID, FFilename, FProfile,
      FIdentifiedPayloadType, FSegmentNumber, FSegmentOriginID, FSegmentTotalLength,
      FContent]"

primrec Tag_Get_warc :: "fname \<Rightarrow> string" where
  "Tag_Get_warc FVersion = []"
| "Tag_Get_warc FRecordID = ''WARC-Record-ID''"
| "Tag_Get_warc FContentLength = ''Content-Length''"
| "Tag_Get_warc FDate = ''WARC-Date''"
| "Tag_Get_warc FType = ''WARC-Type''"
| "Tag_Get_warc FContentType = ''Content-Type,omitempty''"
| "Tag_Get_warc FConcurrentTo = ''WARC-Concurrent-To,omitempty''"
| "Tag_Get_warc FBlockDigest = ''WARC-Block-Digest,omitempty''"
| "Tag_Get_warc FPayloadDigest = ''WARC-Payload-Digest,omitempty''"
| "Tag_Get_warc FIPAddress = ''WARC-IP-Address,omitempty''"
| "Tag_Get_warc FRefersTo = ''WARC-Refers-To,omitempty''"
| "Tag_Get_warc FRefersToTargetURI = ''WARC-Refers-To-Target-URI,omitempty''"
| "Tag_Get_warc FRefersToDate = ''WARC-Refers-To-Date,omitempty''"
| "Tag_Get_warc FTargetURI = ''WARC-Target-URI,omitempty''"
| "Tag_Get_warc FTruncated = ''WARC-Truncated,omitempty''"
| "Tag_Get_warc FWarcinfoID = ''WARC-Warcinfo-ID,omitempty''"
| "Tag_Get_warc FFilename = ''WARC-Filename,omitempty''"
| "Tag_Get_warc FProfile = ''WARC-Profile,omitempty''"
| "Tag_Get_warc FIdentifiedPayloadType = ''WARC-Identified-Payload-Type,omitempty''"
| "Tag_Get_warc FSegmentNumber = ''WARC-Segment-Number,omitempty''"
| "Tag_Get_warc FSegmentOriginID = ''WARC-Segment-Origin-ID,omitempty''"
| "Tag_Get_warc FSegmentTotalLength = ''WARC-Segment-Total-Length,omitempty''"
| "Tag_Get_warc FContent = []"

datatype rvalue =
    VString string | VInt int | VUint nat | VStrings "string list" | VTime time
  | VBytes string

primrec Field :: "WARCRecord \<Rightarrow> fname \<Rightarrow> rvalue" where
  "Field r FVersion = VString (Version r)"
| "Field r FRecordID = VString (RecordID r)"
| "Field r FContentLength = VUint (ContentLength r)"
| "Field r FDate = VTime (Date r)"
| "Field r FType = VString (Type r)"
| "Field r FContentType = VString (ContentType r)"
| "Field r FConcurrentTo = VStrings (ConcurrentTo r)"
| "Field r FBlockDigest = VString (BlockDigest r)"
| "Field r FPayloadDigest = VString (PayloadDigest r)"
| "Field r FIPAddress = VString (IPAddress r)"
| "Field r FRefersTo = VString (RefersTo r)"
| "Field r FRefersToTargetURI = VString (RefersToTargetURI r)"
| "Field r FRefersToDate = VTime (RefersToDate r)"
| "Field r FTargetURI = VString (TargetURI r)"
| "Field r FTruncated = VString (Truncated r)"
| "Field r FWarcinfoID = VString (WarcinfoID r)"
| "Field r FFilename = VString (Filename r)"
| "Field r FProfile = VString (Profile r)"
| "Field r FIdentifiedPayloadType = VString (IdentifiedPayloadType r)"
| "Field r FSegmentNumber = VInt (SegmentNumber r)"
| "Field r FSegmentOriginID = VString (SegmentOriginID r)"
| "Field r FSegmentTotalLength = VUint (SegmentTotalLength r)"
| "Field r FContent = VBytes (Content r)"

text \<open>Storing through the \<^verbatim>\<open>reflect.Value\<close> of a field. The codec only ever stores a
  value of the field's own kind; any other pair leaves the record as it is.\<close>

definition SetString :: "fname \<Rightarrow> string \<Rightarrow> WARCRecord \<Rightarrow> WARCRecord" where
  "SetString f s r =
     (case f of
        FVersion \<Rightarrow> r\<lparr>Version := s\<rparr>
      | FRecordID \<Rightarrow> r\<lparr>RecordID := s\<rparr>
      | FType \<Rightarrow> r\<lparr>Type := s\<rparr>
      | FContentType \<Rightarrow> r\<lparr>ContentType := s\<rparr>
      | FBlockDigest \<Rightarrow> r\<lparr>BlockDigest := s\<rparr>
      | FPayloadDigest \<Rightarrow> r\<lparr>PayloadDigest := s\<rparr>
      | FIPAddress \<Rightarrow> r\<lparr>IPAddress := s\<rparr>
      | FRefersTo \<Rightarrow> r\<lparr>RefersTo := s\<rparr>
      | FRefersToTargetURI \<Rightarrow> r\<lparr>RefersToTargetURI := s\<rparr>
      | FTargetURI \<Rightarrow> r\<lparr>TargetURI := s\<rparr>
      | FTruncated \<Rightarrow> r\<lparr>Truncated := s\<rparr>
      | FWarcinfoID \<Rightarrow> r\<lparr>WarcinfoID := s\<rparr>
      | FFilename \<Rightarrow> r\<lparr>Filename := s\<rparr>
      | FProfile \<Rightarrow> r\<lparr>Profile := s\<rparr>
      | FIdentifiedPayloadType \<Rightarrow> r\<lparr>IdentifiedPayloadType := s\<rparr>
      | FSegmentOriginID \<Rightarrow> r\<lparr>SegmentOriginID := s\<rparr>
      | _ \<Rightarrow> r)"

definition SetField :: "fname \<Rightarrow> rvalue \<Rightarrow> WARCRecord \<Rightarrow> WARCRecord" where
  "SetField f v r =
     (case v of
        VString s \<Rightarrow> SetString f s r
      | VInt i \<Rightarrow> (case f of FSegmentNumber \<Rightarrow> r\<lparr>SegmentNumber := i\<rparr> | _ \<Rightarrow> r)
      | VUint n \<Rightarrow>
          (case f of
             FContentLength \<Rightarrow> r\<lparr>ContentLength := n\<rparr>
           | FSegmentTotalLength \<Rightarrow> r\<lparr>SegmentTotalLength := n\<rparr>
           | _ \<Rightarrow> r)
      | VStrings l \<Rightarrow> (case f of FConcurrentTo \<Rightarrow> r\<lparr>ConcurrentTo := l\<rparr> | _ \<Rightarrow> r)
      | VTime t \<Rightarrow>
          (case f of
             FDate \<Rightarrow> r\<lparr>Date := t\<rparr>
           | FRefersToDate \<Rightarrow> r\<lparr>RefersToDate := t\<rparr>
           | _ \<Rightarrow> r)
      | VBytes b \<Rightarrow> (case f of FContent \<Rightarrow> r\<lparr>Content := b\<rparr> | _ \<Rightarrow> r))"

section \<open>Reading a record: \<^verbatim>\<open>bufio.Reader\<close>\<close>

text \<open>
  \<^verbatim>\<open>Unmarshal\<close> reads its input through \<^verbatim>\<open>bufio.NewReader(bytes.NewReader(data))\<close>. The
  reader holds a buffer of 4096 bytes: \<open>buffered\<close> is the part of the input already in
  the buffer and not yet consumed, \<open>unread\<close> the part still in the byte source, \<open>rerr\<close>
  whether the source has reported \<^verbatim>\<open>io.EOF\<close>. \<open>fill\<close> is one read of the source into
  the free space of the buffer.
\<close>

record Reader =
  buffered :: string
  unread :: string
  rerr :: bool

definition defaultBufSize :: nat where
  "defaultBufSize = 4096"

definition NewReader :: "string \<Rightarrow> Reader" where
  "NewReader data = \<lparr>buffered = [], unread = data, rerr = False\<rparr>"

definition fill :: "Reader \<Rightarrow> Reader" where
  "fill b =
     (if unread b = [] then b\<lparr>rerr := True\<rparr>
      else let n = min (defaultBufSize - length (buffered b)) (length (unread b))
           in b\<lparr>buffered := buffered b @ take n (unread b), unread := drop n (unread b)\<rparr>)"

text \<open>
  \<^verbatim>\<open>ReadString(delim)\<close>: the bytes up to and including the first \<open>delim\<close>. \<open>acc\<close> holds the
  full buffers already collected for a line longer than the buffer. The result is
  \<open>None\<close> when the source ends before a delimiter (the call returns \<^verbatim>\<open>io.EOF\<close>).
\<close>

function ReadString :: "char \<Rightarrow> string \<Rightarrow> Reader \<Rightarrow> (string \<times> Reader) option" where
  "ReadString delim acc b =
     (if delim \<in> set (buffered b) then
        (let i = length (takeWhile (\<lambda>c. c \<noteq> delim) (buffered b))
         in Some (acc @ take (i + 1) (buffered b), b\<lparr>buffered := drop (i + 1) (buffered b)\<rparr>))
      else if rerr b then None
      else if length (buffered b) \<ge> defaultBufSize
        then ReadString delim (acc @ buffered b) (b\<lparr>buffered := []\<rparr>)
      else ReadString delim acc (fill b))"
  by pat_completeness auto
termination
  by (relation "measures [\<lambda>(d, a, b). (if rerr b then 0 else 1) + length (unread b),
                           \<lambda>(d, a, b). length (buffered b)]")
     (auto simp: fill_def defaultBufSize_def Let_def)

declare ReadString.simps [simp del]

text \<open>
  \<^verbatim>\<open>Read(p)\<close> with \<open>len(p) = n\<close>: the bytes copied into \<open>p\<close>, taken from the buffer when it
  holds any and from at most one read of the source otherwise, so fewer than \<open>n\<close> bytes
  may come back. \<open>None\<close> is a call that returns an error.
\<close>

definition Read :: "nat \<Rightarrow> Reader \<Rightarrow> string option" where
  "Read n b =
     (if n = 0 then (if buffered b \<noteq> [] then Some [] else if rerr b then None else Some [])
      else if buffered b = [] then
        (if rerr b then None
         else if n \<ge> defaultBufSize
           then (if unread b = [] then None else Some (take n (unread b)))
         else (if unread b = [] then None else Some (take n (buffered (fill b)))))
      else Some (take n (buffered b)))"


section \<open>Decoding a WARC record (\<^verbatim>\<open>Unmarshal\<close>, package \<^verbatim>\<open>warc\<close>)\<close>

text \<open>
  The errors of the codec are \<^verbatim>\<open>fmt.Errorf\<close> and \<^verbatim>\<open>errors.New\<close> values; the model has one
  constructor for each place that makes one, with the text the message is built from.
  \<open>PanicMakeslice\<close> is the run-time panic of \<^verbatim>\<open>make([]byte, n)\<close> for a negative or
  oversized \<open>n\<close>, \<open>PanicIndexOutOfRange\<close> that of an index past the end of a slice.
  \<open>NumError\<close> and \<open>TimeParseError\<close> are the errors of \<^verbatim>\<open>strconv.ParseInt\<close> and
  \<^verbatim>\<open>time.Parse\<close>; \<open>EOF\<close> is \<^verbatim>\<open>io.EOF\<close>, and the three after it are errors of
  \<^verbatim>\<open>bufio.Scanner\<close>.
\<close>

datatype error =
    FailedToReadVersion
  | UnsupportedWARCVersion string
  | MustBePointer
  | FailedToReadHeader
  | InvalidHeaderFormat string
  | FailedToReadContent
  | FailedToSetField fname error
  | PanicMakeslice
  | MustBeStruct
  | MissingContentLength
  | EmptyCDXFile
  | InvalidCDXHeader string
  | InvalidRecordLength nat nat
  | ErrorParsingField char error
  | UnknownField char
  | NumError string
  | TimeParseError string
  | PanicIndexOutOfRange
  | InputIsNil
  | MustBePointerToCDXFile
  | EOF
  | ErrTooLong
  | ErrNoProgress
  | ErrAdvanceTooFar
  | InvalidContentLength
  | VersionRequired
  | RecordIDRequired
  | DateRequired
  | TypeRequired

text \<open>The argument \<open>v\<close> of \<^verbatim>\<open>Marshal\<close> and \<^verbatim>\<open>Unmarshal\<close> has a dynamic type: a pointer to a
  record, a record passed by value, the nil interface, or a value that is no struct
  (a string, say).\<close>

datatype arg = Ptr WARCRecord | Val WARCRecord | Nil | NonStruct

text \<open>\<^verbatim>\<open>setField\<close> of the decoder: \<open>field\<close> is the current value of the struct field (its
  constructor is the kind the \<^verbatim>\<open>switch\<close> tests), the result the value after the call.
  Every path returns \<^verbatim>\<open>nil\<close>.\<close>

fun setField :: "rvalue \<Rightarrow> string \<Rightarrow> error + rvalue" where
  "setField (VString old) value = Inr (VString value)"
| "setField (VInt old) value =
     (case ParseInt value of (v, True) \<Rightarrow> Inr (VInt v) | (v, False) \<Rightarrow> Inr (VInt old))"
| "setField (VTime old) value =
     (case time_Parse RFC3339 value of Some t \<Rightarrow> Inr (VTime t) | None \<Rightarrow> Inr (VTime old))"
| "setField field value = Inr field"

text \<open>What \<open>ReadString\<close> returns is the input up to the first delimiter, and the reader
  is left on the rest.\<close>

lemma take_upto_delim:
  "d \<in> set xs \<Longrightarrow>
     take (Suc (length (takeWhile (\<lambda>c. c \<noteq> d) xs))) xs = takeWhile (\<lambda>c. c \<noteq> d) xs @ [d]"
  by (induction xs) auto

lemma drop_upto_delim:
  "d \<in> set xs \<Longrightarrow>
     xs = takeWhile (\<lambda>c. c \<noteq> d) xs @ [d] @ drop (Suc (length (takeWhile (\<lambda>c. c \<noteq> d) xs))) xs"
  by (induction xs) auto

lemma fill_stream: "buffered (fill b) @ unread (fill b) = buffered b @ unread b"
  by (simp add: fill_def Let_def)

lemma ReadString_Some:
  "ReadString d acc b = Some (l, b') \<Longrightarrow>
     \<exists>x. l = acc @ x @ [d] \<and> d \<notin> set x \<and> buffered b @ unread b = x @ [d] @ buffered b' @ unread b'"
proof (induction d acc b rule: ReadString.induct)
  case (1 delim acc b)
  show ?case
  proof (cases "delim \<in> set (buffered b)")
    case True
    let ?x = "takeWhile (\<lambda>c. c \<noteq> delim) (buffered b)"
    from True "1.prems" have l: "l = acc @ take (Suc (length ?x)) (buffered b)"
      and b': "b' = b\<lparr>buffered := drop (Suc (length ?x)) (buffered b)\<rparr>"
      by (simp_all add: ReadString.simps [of delim acc b] Let_def)
    have "delim \<notin> set ?x" by (auto dest: set_takeWhileD)
    moreover have "l = acc @ ?x @ [delim]" using l True by (simp add: take_upto_delim)
    moreover have "buffered b @ unread b = ?x @ [delim] @ buffered b' @ unread b'"
      using drop_upto_delim [OF True] b'
      by (metis append.assoc select_convs(1,2) surjective update_convs(1))
    ultimately show ?thesis by blast
  next
    case False
    note nd = False
    show ?thesis
    proof (cases "rerr b")
      case True
      with nd "1.prems" show ?thesis by (simp add: ReadString.simps [of delim acc b])
    next
      case False
      note ne = False
      show ?thesis
      proof (cases "defaultBufSize \<le> length (buffered b)")
        case True
        with nd ne "1.prems"
        have "ReadString delim (acc @ buffered b) (b\<lparr>buffered := []\<rparr>) = Some (l, b')"
          by (simp add: ReadString.simps [of delim acc b])
        from "1.IH"(1) [OF nd ne True this] obtain x where
          x: "l = (acc @ buffered b) @ x @ [delim]" "delim \<notin> set x"
             "unread b = x @ [delim] @ buffered b' @ unread b'" by auto
        then show ?thesis using nd by (intro exI [of _ "buffered b @ x"]) simp
      next
        case False
        with nd ne "1.prems" have "ReadString delim acc (fill b) = Some (l, b')"
          by (simp add: ReadString.simps [of delim acc b])
        from "1.IH"(2) [OF nd ne False this] show ?thesis
          by (simp add: fill_stream)
      qed
    qed
  qed
qed

lemma ReadString_shorter:
  "ReadString d acc b = Some (l, b') \<Longrightarrow>
     length (buffered b') + length (unread b') < length (buffered b) + length (unread b)"
proof -
  assume "ReadString d acc b = Some (l, b')"
  from ReadString_Some [OF this] obtain x where
    "buffered b @ unread b = x @ [d] @ buffered b' @ unread b'" by blast
  then have "length (buffered b @ unread b) = length (x @ [d] @ buffered b' @ unread b')"
    by simp
  then show ?thesis by simp
qed

text \<open>Indexing a Go map of strings: a missing key gives the empty string.\<close>

definition lookup :: "(string \<rightharpoonup> string) \<Rightarrow> string \<Rightarrow> string" where
  "lookup m k = (case m k of Some v \<Rightarrow> v | None \<Rightarrow> [])"

text \<open>The header loop: one line per round, until the first line that is blank after
  trimming.\<close>

function readHeaders :: "Reader \<Rightarrow> (string \<rightharpoonup> string) \<Rightarrow> error + ((string \<rightharpoonup> string) \<times> Reader)" where
  "readHeaders reader headers =
     (case ReadString (CHR 0x0A) [] reader of
        None \<Rightarrow> Inl FailedToReadHeader
      | Some (line0, reader') \<Rightarrow>
          (let line = TrimSpace line0
           in if line = [] then Inr (headers, reader')
              else (let parts = SplitN2 line (CHR '':'')
                    in if length parts \<noteq> 2 then Inl (InvalidHeaderFormat line)
                       else readHeaders reader'
                              (headers(TrimSpace (parts ! 0) \<mapsto> TrimSpace (parts ! 1))))))"
  by pat_completeness auto

termination
  by (relation "measure (\<lambda>(b, h). length (buffered b) + length (unread b))")
     (auto dest: ReadString_shorter)

declare readHeaders.simps [simp del]

text \<open>The loop over the struct fields that stores the header values.\<close>

fun setFields :: "(string \<rightharpoonup> string) \<Rightarrow> fname list \<Rightarrow> WARCRecord \<Rightarrow> error + WARCRecord" where
  "setFields headers [] r = Inr r"
| "setFields headers (f # fs) r =
     (let tag = Tag_Get_warc f
      in if tag = [] then setFields headers fs r
         else (let tagParts = Split tag (CHR '','');
                   headerName = tagParts ! 0;
                   value = lookup headers headerName;
                   exists = (headers headerName \<noteq> None)
               in if \<not> exists \<and> length tagParts > 1 \<and> tagParts ! 1 = ''omitempty''
                  then setFields headers fs r
                  else (case setField (Field r f) value of
                          Inl err \<Rightarrow> Inl (FailedToSetField f err)
                        | Inr x \<Rightarrow> setFields headers fs (SetField f x r))))"

text \<open>\<^verbatim>\<open>make([]byte, n)\<close> panics for a negative length and for one beyond the largest
  allocation (\<open>2 ^ 48\<close> bytes on linux/amd64).\<close>

definition maxAlloc :: int where
  "maxAlloc = 2 ^ 48"

text \<open>
  \<^verbatim>\<open>Unmarshal(data, v)\<close> of package \<^verbatim>\<open>warc\<close>. For a \<open>v\<close> that points to a record the result
  is the record \<open>v\<close> points to after the call. A \<^verbatim>\<open>WARCRecord\<close> does not implement
  \<^verbatim>\<open>WARCRecordUnmarshaler\<close>, so the first branch of the source is not taken. The bytes
  the reader does not deliver stay at the zero value \<^verbatim>\<open>make\<close> gives them.
\<close>

definition Unmarshal :: "string \<Rightarrow> arg \<Rightarrow> error + WARCRecord" where
  "Unmarshal data v =
     (case ReadString (CHR 0x0A) [] (NewReader data) of
        None \<Rightarrow> Inl FailedToReadVersion
      | Some (versionLine, reader) \<Rightarrow>
          (let version = TrimSpace (TrimPrefix versionLine ''WARC/'')
           in if version \<noteq> WARCVariant1_0 \<and> version \<noteq> WARCVariant1_1
              then Inl (UnsupportedWARCVersion version)
              else (case v of
                      Ptr r \<Rightarrow>
                        (case readHeaders reader Map.empty of
                           Inl err \<Rightarrow> Inl err
                         | Inr (headers, reader') \<Rightarrow>
                             (let contentLength = fst (ParseInt (lookup headers ''Content-Length''))
                              in if contentLength < 0 \<or> contentLength > maxAlloc
                                 then Inl PanicMakeslice
                                 else (case Read (nat contentLength) reader' of
                                         None \<Rightarrow> Inl FailedToReadContent
                                       | Some bs \<Rightarrow>
                                           (let content = bs @ replicate (nat contentLength - length bs) (CHR 0x00)
                                            in setFields headers WARCRecord_fields
                                                 (r\<lparr>Version := version, Content := content\<rparr>)))))
                    | _ \<Rightarrow> Inl MustBePointer)))"

text \<open>The header map \<open>Unmarshal\<close> builds from a block: the first line is the version
  line, the lines after it up to the first blank one are the headers. \<open>None\<close> when the
  block ends before the blank line or a line has no colon.\<close>

definition headersOf :: "string \<Rightarrow> (string \<rightharpoonup> string) option" where
  "headersOf data =
     (case ReadString (CHR 0x0A) [] (NewReader data) of
        None \<Rightarrow> None
      | Some (versionLine, reader) \<Rightarrow>
          (case readHeaders reader Map.empty of
             Inl err \<Rightarrow> None
           | Inr (headers, reader') \<Rightarrow> Some headers))"

text \<open>\<^verbatim>\<open>Valid(data)\<close>, the repository's own check that a block is WARC data: \<open>None\<close> is
  the nil error.\<close>

definition Valid :: "string \<Rightarrow> error option" where
  "Valid data =
     (case ReadString (CHR 0x0A) [] (NewReader data) of
        None \<Rightarrow> Some FailedToReadVersion
      | Some (versionLine, reader) \<Rightarrow>
          (let version = TrimSpace (TrimPrefix versionLine ''WARC/'')
           in if version \<noteq> WARCVariant1_0 \<and> version \<noteq> WARCVariant1_1
              then Some (UnsupportedWARCVersion version)
              else (case readHeaders reader Map.empty of
                      Inl err \<Rightarrow> Some err
                    | Inr (headers, reader') \<Rightarrow>
                        if headers ''Content-Length'' = None then Some MissingContentLength
                        else (case ParseInt (lookup headers ''Content-Length'') of
                                (contentLength, False) \<Rightarrow> Some InvalidContentLength
                              | (contentLength, True) \<Rightarrow>
                                  if contentLength < 0 \<or> contentLength > maxAlloc
                                  then Some PanicMakeslice
                                  else (case Read (nat contentLength) reader' of
                                          None \<Rightarrow> Some FailedToReadContent
                                        | Some bs \<Rightarrow> None)))))"


section \<open>Encoding a WARC record (\<^verbatim>\<open>Marshal\<close>, package \<^verbatim>\<open>gwarc\<close>)\<close>

text \<open>\<^verbatim>\<open>Validate\<close> of \<^verbatim>\<open>*WARCRecord\<close>; \<open>None\<close> is the nil error.\<close>

definition Validate :: "WARCRecord \<Rightarrow> error option" where
  "Validate w =
     (if Version w = [] then Some VersionRequired
      else if RecordID w = [] then Some RecordIDRequired
      else if IsZero (Date w) then Some DateRequired
      else if Type w = [] then Some TypeRequired
      else None)"

record tagInfo =
  name :: string
  omitempty :: bool

definition parseTag :: "string \<Rightarrow> tagInfo" where
  "parseTag tag =
     (let parts = Split tag (CHR '','')
      in \<lparr>name = parts ! 0, omitempty = (length parts > 1 \<and> parts ! 1 = ''omitempty'')\<rparr>)"

text \<open>\<^verbatim>\<open>fmt.Sprint\<close> of a byte slice, the fallback of \<open>formatFieldValue\<close>:
  \<^verbatim>\<open>[72 105]\<close>.\<close>

definition Sprint_bytes :: "string \<Rightarrow> string" where
  "Sprint_bytes b = ''['' @ Join (map (\<lambda>c. FormatUint (of_char c)) b) '' '' @ '']''"

fun formatFieldValue :: "rvalue \<Rightarrow> string" where
  "formatFieldValue (VString s) = s"
| "formatFieldValue (VInt i) = FormatInt i"
| "formatFieldValue (VUint n) = FormatUint n"
| "formatFieldValue (VStrings l) = Join l '', ''"
| "formatFieldValue (VTime t) = time_Format RFC3339 t"
| "formatFieldValue (VBytes b) = Sprint_bytes b"

text \<open>
  The encoder collects the header lines in a Go map, \<^verbatim>\<open>headers\<close>, and writes them with
  \<^verbatim>\<open>for name, value := range headers\<close>. The model keeps the entries of the map as a list
  in the order of their first insertion (\<open>put\<close> is the assignment \<^verbatim>\<open>headers[k] = v\<close>).
  The order in which \<^verbatim>\<open>range\<close> visits a map is not specified by Go and differs from run
  to run; it is the parameter \<open>visit\<close> of \<open>Marshal\<close>, a rearrangement of the entries.
\<close>

fun put :: "string \<Rightarrow> string \<Rightarrow> (string \<times> string) list \<Rightarrow> (string \<times> string) list" where
  "put k v [] = [(k, v)]"
| "put k v ((k', v') # kvs) = (if k = k' then (k, v) # kvs else (k', v') # put k v kvs)"

definition range_order :: "((string \<times> string) list \<Rightarrow> (string \<times> string) list) \<Rightarrow> bool" where
  "range_order visit = (\<forall>kvs. mset (visit kvs) = mset kvs)"

fun marshalHeaders :: "WARCRecord \<Rightarrow> fname list \<Rightarrow> (string \<times> string) list \<Rightarrow> (string \<times> string) list" where
  "marshalHeaders val [] headers = headers"
| "marshalHeaders val (f # fs) headers =
     (let tag = Tag_Get_warc f
      in if tag = [] then marshalHeaders val fs headers
         else (let tagParts = parseTag tag;
                   headerName = name tagParts
               in if headerName = [] then marshalHeaders val fs headers
                  else (let value = formatFieldValue (Field val f)
                        in if value = [] \<and> omitempty tagParts
                           then marshalHeaders val fs headers
                           else marshalHeaders val fs (put headerName value headers))))"

text \<open>The bytes written for a struct value: the version line, the header lines in
  the order of \<open>visit\<close>, the content length of the payload, a blank line, the payload.\<close>

definition encode :: "((string \<times> string) list \<Rightarrow> (string \<times> string) list) \<Rightarrow> WARCRecord \<Rightarrow> string" where
  "encode visit val =
     ''WARC/'' @ Version val @ CRLF @
     concat (map (\<lambda>(name, value). name @ '': '' @ value @ CRLF)
                 (visit (marshalHeaders val WARCRecord_fields []))) @
     ''Content-Length: '' @ FormatInt (int (length (Content val))) @ CRLF @
     CRLF @ Content val"

text \<open>
  \<^verbatim>\<open>Marshal(v)\<close>. The type assertion \<^verbatim>\<open>v.(interface{ Validate() error })\<close> holds for a
  \<^verbatim>\<open>*WARCRecord\<close> only: \<^verbatim>\<open>Validate\<close> has a pointer receiver, so it is not in the method
  set of a \<^verbatim>\<open>WARCRecord\<close> passed by value. The nil interface and a value that is no
  struct have a kind other than \<^verbatim>\<open>reflect.Struct\<close>. A \<^verbatim>\<open>WARCRecord\<close> has the fields
  \<^verbatim>\<open>Version\<close> and \<^verbatim>\<open>Content\<close>, so both \<^verbatim>\<open>FieldByName\<close> results are valid.
\<close>

fun Marshal :: "((string \<times> string) list \<Rightarrow> (string \<times> string) list) \<Rightarrow> arg \<Rightarrow> error + string" where
  "Marshal visit Nil = Inl MustBeStruct"
| "Marshal visit NonStruct = Inl MustBeStruct"
| "Marshal visit (Ptr r) =
     (case Validate r of Some err \<Rightarrow> Inl err | None \<Rightarrow> Inr (encode visit r))"
| "Marshal visit (Val r) = Inr (encode visit r)"

text \<open>The header lines in the order in which the struct declares the fields: the
  tagged fields, less those that are empty and marked \<^verbatim>\<open>omitempty\<close>.\<close>

definition headerName :: "fname \<Rightarrow> string" where
  "headerName f = name (parseTag (Tag_Get_warc f))"

definition emitted :: "WARCRecord \<Rightarrow> fname \<Rightarrow> bool" where
  "emitted val f =
     (Tag_Get_warc f \<noteq> [] \<and> headerName f \<noteq> []
      \<and> \<not> (formatFieldValue (Field val f) = [] \<and> omitempty (parseTag (Tag_Get_warc f))))"

definition declared_lines :: "WARCRecord \<Rightarrow> string list" where
  "declared_lines val =
     map (\<lambda>f. headerName f @ '': '' @ formatFieldValue (Field val f) @ CRLF)
         (filter (emitted val) WARCRecord_fields)"

section \<open>The CDX row codec\<close>

text \<open>Reflection over \<^verbatim>\<open>CDXRecord\<close>: the value of a field, and a store through it. The
  fields are of kind string, int (and int64) and \<^verbatim>\<open>time.Time\<close>.\<close>

definition cdxSetString :: "cname \<Rightarrow> string \<Rightarrow> CDXRecord \<Rightarrow> CDXRecord" where
  "cdxSetString f s r =
     (case f of
        CCanonizedURL \<Rightarrow> r\<lparr>CanonizedURL := s\<rparr>
      | CNewsGroup \<Rightarrow> r\<lparr>NewsGroup := s\<rparr>
      | CRulespaceCategory \<Rightarrow> r\<lparr>RulespaceCategory := s\<rparr>
      | CCanonizedFrame \<Rightarrow> r\<lparr>CanonizedFrame := s\<rparr>
      | CCanonizedHost \<Rightarrow> r\<lparr>CanonizedHost := s\<rparr>
      | CCanonizedImage \<Rightarrow> r\<lparr>CanonizedImage := s\<rparr>
      | CCanonizedJump \<Rightarrow> r\<lparr>CanonizedJump := s\<rparr>
      | CCanonizedLink \<Rightarrow> r\<lparr>CanonizedLink := s\<rparr>
      | CMassagedURL \<Rightarrow> r\<lparr>MassagedURL := s\<rparr>
      | CCanonizedPath \<Rightarrow> r\<lparr>CanonizedPath := s\<rparr>
      | CCanonizedRedirect \<Rightarrow> r\<lparr>CanonizedRedirect := s\<rparr>
      | COriginalURL \<Rightarrow> r\<lparr>OriginalURL := s\<rparr>
      | COriginalHost \<Rightarrow> r\<lparr>OriginalHost := s\<rparr>
      | COriginalPath \<Rightarrow> r\<lparr>OriginalPath := s\<rparr>
      | CIP \<Rightarrow> r\<lparr>IP := s\<rparr>
      | CLanguage \<Rightarrow> r\<lparr>Language := s\<rparr>
      | CTitle \<Rightarrow> r\<lparr>Title := s\<rparr>
      | CMetaTags \<Rightarrow> r\<lparr>MetaTags := s\<rparr>
      | COldChecksum \<Rightarrow> r\<lparr>OldChecksum := s\<rparr>
      | CNewChecksum \<Rightarrow> r\<lparr>NewChecksum := s\<rparr>
      | CFrame \<Rightarrow> r\<lparr>Frame := s\<rparr>
      | CImage \<Rightarrow> r\<lparr>Image := s\<rparr>
      | CJumpPoint \<Rightarrow> r\<lparr>JumpPoint := s\<rparr>
      | CLink \<Rightarrow> r\<lparr>Link := s\<rparr>
      | CURLsInHref \<Rightarrow> r\<lparr>URLsInHref := s\<rparr>
      | CURLsInSrc \<Rightarrow> r\<lparr>URLsInSrc := s\<rparr>
      | CURLsInScript \<Rightarrow> r\<lparr>URLsInScript := s\<rparr>
      | CMIMEType \<Rightarrow> r\<lparr>MIMEType := s\<rparr>
      | CRedirect \<Rightarrow> r\<lparr>Redirect := s\<rparr>
      | CFilename \<Rightarrow> r\<lparr>CDXRecord.Filename := s\<rparr>
      | CFBIS \<Rightarrow> r\<lparr>FBIS := s\<rparr>
      | CUniqueness \<Rightarrow> r\<lparr>Uniqueness := s\<rparr>
      | _ \<Rightarrow> r)"

definition cdxSetInt :: "cname \<Rightarrow> int \<Rightarrow> CDXRecord \<Rightarrow> CDXRecord" where
  "cdxSetInt f i r =
     (case f of
        CPort \<Rightarrow> r\<lparr>Port := i\<rparr>
      | CCompressedSize \<Rightarrow> r\<lparr>CompressedSize := i\<rparr>
      | CArcDocumentLength \<Rightarrow> r\<lparr>ArcDocumentLength := i\<rparr>
      | CCompressedDatOffset \<Rightarrow> r\<lparr>CompressedDatOffset := i\<rparr>
      | CUncompressedDatOffset \<Rightarrow> r\<lparr>UncompressedDatOffset := i\<rparr>
      | CCompressedArcOffset \<Rightarrow> r\<lparr>CompressedArcOffset := i\<rparr>
      | CUncompressedArcOffset \<Rightarrow> r\<lparr>UncompressedArcOffset := i\<rparr>
      | CStatusCode \<Rightarrow> r\<lparr>StatusCode := i\<rparr>
      | _ \<Rightarrow> r)"

definition cdxSet :: "cname \<Rightarrow> rvalue \<Rightarrow> CDXRecord \<Rightarrow> CDXRecord" where
  "cdxSet f v r =
     (case v of
        VString s \<Rightarrow> cdxSetString f s r
      | VInt i \<Rightarrow> cdxSetInt f i r
      | VTime t \<Rightarrow> (case f of CDate \<Rightarrow> r\<lparr>CDXRecord.Date := t\<rparr> | _ \<Rightarrow> r)
      | _ \<Rightarrow> r)"

primrec cdxField :: "CDXRecord \<Rightarrow> cname \<Rightarrow> rvalue" where
  "cdxField r CCanonizedURL = VString (CanonizedURL r)"
| "cdxField r CNewsGroup = VString (NewsGroup r)"
| "cdxField r CRulespaceCategory = VString (RulespaceCategory r)"
| "cdxField r CCanonizedFrame = VString (CanonizedFrame r)"
| "cdxField r CCanonizedHost = VString (CanonizedHost r)"
| "cdxField r CCanonizedImage = VString (CanonizedImage r)"
| "cdxField r CCanonizedJump = VString (CanonizedJump r)"
| "cdxField r CCanonizedLink = VString (CanonizedLink r)"
| "cdxField r CMassagedURL = VString (MassagedURL r)"
| "cdxField r CCanonizedPath = VString (CanonizedPath r)"
| "cdxField r CCanonizedRedirect = VString (CanonizedRedirect r)"
| "cdxField r COriginalURL = VString (OriginalURL r)"
| "cdxField r COriginalHost = VString (OriginalHost r)"
| "cdxField r COriginalPath = VString (OriginalPath r)"
| "cdxField r CDate = VTime (CDXRecord.Date r)"
| "cdxField r CIP = VString (IP r)"
| "cdxField r CLanguage = VString (Language r)"
| "cdxField r CPort = VInt (Port r)"
| "cdxField r CTitle = VString (Title r)"
| "cdxField r CMetaTags = VString (MetaTags r)"
| "cdxField r COldChecksum = VString (OldChecksum r)"
| "cdxField r CNewChecksum = VString (NewChecksum r)"
| "cdxField r CCompressedSize = VInt (CompressedSize r)"
| "cdxField r CArcDocumentLength = VInt (ArcDocumentLength r)"
| "cdxField r CCompressedDatOffset = VInt (CompressedDatOffset r)"
| "cdxField r CUncompressedDatOffset = VInt (UncompressedDatOffset r)"
| "cdxField r CCompressedArcOffset = VInt (CompressedArcOffset r)"
| "cdxField r CUncompressedArcOffset = VInt (UncompressedArcOffset r)"
| "cdxField r CFrame = VString (Frame r)"
| "cdxField r CImage = VString (Image r)"
| "cdxField r CJumpPoint = VString (JumpPoint r)"
| "cdxField r CLink = VString (Link r)"
| "cdxField r CURLsInHref = VString (URLsInHref r)"
| "cdxField r CURLsInSrc = VString (URLsInSrc r)"
| "cdxField r CURLsInScript = VString (URLsInScript r)"
| "cdxField r CMIMEType = VString (MIMEType r)"
| "cdxField r CStatusCode = VInt (StatusCode r)"
| "cdxField r CRedirect = VString (Redirect r)"
| "cdxField r CFilename = VString (CDXRecord.Filename r)"
| "cdxField r CFBIS = VString (FBIS r)"
| "cdxField r CUniqueness = VString (Uniqueness r)"

text \<open>
  \<^verbatim>\<open>setField\<close> of package \<^verbatim>\<open>cdx\<close>: the loop over the struct fields stops at the first
  whose \<^verbatim>\<open>cdx\<close> tag is the column code and stores the value by the kind of the field.
\<close>

definition cdx_setField :: "CDXRecord \<Rightarrow> CDXField \<Rightarrow> string \<Rightarrow> error + CDXRecord" where
  "cdx_setField record field value =
     (case find (\<lambda>f. Tag_Get_cdx f = string_of_rune field) CDXRecord_fields of
        None \<Rightarrow> Inl (UnknownField field)
      | Some f \<Rightarrow>
          (case cdxField record f of
             VString old \<Rightarrow> Inr (cdxSet f (VString value) record)
           | VInt old \<Rightarrow>
               (case ParseInt value of
                  (n, False) \<Rightarrow> Inl (NumError value)
                | (n, True) \<Rightarrow> Inr (cdxSet f (VInt n) record))
           | VTime old \<Rightarrow>
               (case time_Parse CDXTimestampFormat value of
                  None \<Rightarrow> Inl (TimeParseError value)
                | Some t \<Rightarrow> Inr (cdxSet f (VTime t) record))
           | _ \<Rightarrow> Inr record))"

text \<open>The encoder of package \<^verbatim>\<open>cdx\<close> (\<^verbatim>\<open>cdx/marshal.go\<close>). A column code with no field
  of that tag leaves its value the empty string.\<close>

fun formatField :: "rvalue \<Rightarrow> string" where
  "formatField (VString s) = (if s = [] then ''-'' else s)"
| "formatField (VInt i) = (if i = 0 then ''-'' else FormatInt i)"
| "formatField (VTime t) = (if IsZero t then ''-'' else time_Format CDXTimestampFormat t)"
| "formatField v = ''-''"

definition joinFields :: "string list \<Rightarrow> char \<Rightarrow> string" where
  "joinFields flds delimiter = Join flds (string_of_rune delimiter)"

definition marshalRecord :: "CDXRecord \<Rightarrow> CDXField list \<Rightarrow> char \<Rightarrow> string" where
  "marshalRecord record flds delimiter =
     joinFields
       (map (\<lambda>field. case find (\<lambda>f. Tag_Get_cdx f = string_of_rune field) CDXRecord_fields of
                         None \<Rightarrow> []
                       | Some f \<Rightarrow> formatField (cdxField record f))
            flds)
       delimiter"

definition CDXFormat_String :: "CDXFormat \<Rightarrow> string" where
  "CDXFormat_String f = Join (''CDX'' # map string_of_rune f) '' ''"

text \<open>The argument of \<^verbatim>\<open>Marshal\<close> and \<^verbatim>\<open>Unmarshal\<close> of package \<^verbatim>\<open>cdx\<close>: the nil
  interface, a pointer to a \<^verbatim>\<open>CDXFile\<close>, or a value of another type.\<close>

datatype cdx_arg = CNil | CPtr CDXFile | COther

definition cdx_Marshal :: "cdx_arg \<Rightarrow> error + string" where
  "cdx_Marshal v =
     (case v of
        CNil \<Rightarrow> Inl InputIsNil
      | COther \<Rightarrow> Inl MustBePointerToCDXFile
      | CPtr cdxFile \<Rightarrow>
          Inr ((if length (Format (Header cdxFile)) > 0
                then CDXFormat_String (Format (Header cdxFile)) @ [CHR 0x0A] else []) @
               concat (map (\<lambda>record. marshalRecord record (Format (Header cdxFile))
                                         (Delimiter (Header cdxFile)) @ [CHR 0x0A])
                           (Records cdxFile))))"

text \<open>A column code that is the tag of some field.\<close>

definition known_field :: "CDXField \<Rightarrow> bool" where
  "known_field field = (find (\<lambda>f. Tag_Get_cdx f = string_of_rune field) CDXRecord_fields \<noteq> None)"

section \<open>The stream segmenter (\<^verbatim>\<open>NewWARC\<close>, \<^verbatim>\<open>NextChunk\<close>)\<close>

subsection \<open>\<^verbatim>\<open>bufio.Scanner\<close>\<close>

text \<open>
  The segmenter and the CDX decoder read their input through a \<^verbatim>\<open>bufio.Scanner\<close> over a
  reader that holds the whole input in memory (\<^verbatim>\<open>bytes.Buffer\<close>, \<^verbatim>\<open>bytes.Reader\<close>): a read
  gives as many of the remaining bytes as the caller has room for, and the error
  \<^verbatim>\<open>io.EOF\<close> once none is left.

  The scanner keeps a buffer \<^verbatim>\<open>buf\<close> of which the bytes from \<^verbatim>\<open>start\<close> to \<^verbatim>\<open>end\<close> are
  read and not yet handed out. In the model \<open>src\<close> is the input the reader has left,
  \<open>buf\<close> is the slice \<^verbatim>\<open>buf[start:end]\<close>, \<open>bufLen\<close> is \<^verbatim>\<open>len(buf)\<close>, and \<open>serr\<close> is the
  sticky error. The buffer starts empty, grows from 4096 bytes by doubling and never
  beyond \<^verbatim>\<open>MaxScanTokenSize\<close>, 64 KiB.
\<close>

definition startBufSize :: nat where
  "startBufSize = 4096"

definition MaxScanTokenSize :: nat where
  "MaxScanTokenSize = 65536"

type_synonym SplitFunc = "string \<Rightarrow> bool \<Rightarrow> nat \<times> string option"

record Scanner =
  src :: string
  buf :: string
  start :: nat
  bufLen :: nat
  serr :: "error option"

definition NewScanner :: "string \<Rightarrow> Scanner" where
  "NewScanner r = \<lparr>src = r, buf = [], start = 0, bufLen = 0, serr = None\<rparr>"

definition shift :: "Scanner \<Rightarrow> Scanner" where
  "shift s =
     (if start s > 0 \<and> (start s + length (buf s) = bufLen s \<or> start s > bufLen s div 2)
      then s\<lparr>start := 0\<rparr> else s)"

definition grow :: "Scanner \<Rightarrow> Scanner" where
  "grow s =
     s\<lparr>bufLen := min (if bufLen s * 2 = 0 then startBufSize else bufLen s * 2) MaxScanTokenSize,
       start := 0\<rparr>"

definition makeRoom :: "Scanner \<Rightarrow> error + Scanner" where
  "makeRoom s =
     (let s2 = shift s
      in if start s2 + length (buf s2) = bufLen s2
         then (if bufLen s2 \<ge> MaxScanTokenSize then Inl ErrTooLong else Inr (grow s2))
         else Inr s2)"

text \<open>\<^verbatim>\<open>setErr\<close> records the first error that is not \<^verbatim>\<open>io.EOF\<close>.\<close>

definition setErr :: "Scanner \<Rightarrow> error \<Rightarrow> Scanner" where
  "setErr s e = (if serr s = None \<or> serr s = Some EOF then s\<lparr>serr := Some e\<rparr> else s)"

text \<open>One read from the source into the free end of the buffer. The room is never
  empty when \<open>Scan\<close> reads, so the read that gives nothing is the end of the input.\<close>

definition readInput :: "Scanner \<Rightarrow> Scanner" where
  "readInput s =
     (if src s = [] then setErr s EOF
      else (let n = min (bufLen s - (start s + length (buf s))) (length (src s))
            in if n = 0 then setErr s ErrNoProgress
               else s\<lparr>buf := buf s @ take n (src s), src := drop n (src s)\<rparr>))"

lemma makeRoom_fields:
  "makeRoom s = Inr s' \<Longrightarrow> src s' = src s \<and> serr s' = serr s \<and> buf s' = buf s"
  by (auto simp: makeRoom_def shift_def grow_def Let_def split: if_splits)

lemma readInput_smaller:
  "serr s = None \<Longrightarrow>
     length (src (readInput s)) + (if serr (readInput s) = None then 1 else 0) < length (src s) + 1"
  by (auto simp: readInput_def setErr_def Let_def)

text \<open>
  \<^verbatim>\<open>Scan\<close>: the loop that runs the split function on the buffered bytes, hands out a
  token, or makes room (\<open>makeRoom\<close>: shift the data to the front, or double the
  buffer, or fail with \<^verbatim>\<open>ErrTooLong\<close> when the buffer is full at its largest size) and
  reads more. The result is the token, \<open>None\<close> when \<^verbatim>\<open>Scan\<close> returns false. A split
  function is called with the buffered bytes and whether the input is at its end; it
  returns how far to advance and the token, \<open>None\<close> for a nil token. The two split
  functions of the repository return no error, and advance whenever they give a token,
  so the count of empty tokens that \<^verbatim>\<open>Scan\<close> keeps stays at zero and is left out.
\<close>

function Scan :: "SplitFunc \<Rightarrow> Scanner \<Rightarrow> string option \<times> Scanner" where
  "Scan splitf s =
     (case (if buf s \<noteq> [] \<or> serr s \<noteq> None then splitf (buf s) (serr s \<noteq> None) else (0, None)) of
        (advance, token) \<Rightarrow>
          if advance > length (buf s) then (None, setErr s ErrAdvanceTooFar)
          else (let s1 = s\<lparr>start := start s + advance, buf := drop advance (buf s)\<rparr>
                in case token of
                     Some tok \<Rightarrow> (Some tok, s1)
                   | None \<Rightarrow>
                       if serr s1 \<noteq> None then (None, s1\<lparr>start := 0, buf := []\<rparr>)
                       else (case makeRoom s1 of
                               Inl e \<Rightarrow> (None, setErr s1 e)
                             | Inr s2 \<Rightarrow> Scan splitf (readInput s2))))"
  by pat_completeness auto
termination
proof (relation "measure (\<lambda>(f, s). length (src s) + (if serr s = None then 1 else 0))", goal_cases)
  case 1
  show ?case by simp
next
  case (2 splitf s x y xa xb)
  from 2(3,5) have e: "serr s = None" by simp
  from makeRoom_fields [OF 2(6)] 2(3) have "src xb = src s" "serr xb = None"
    using e by simp_all
  with readInput_smaller [of xb] e show ?case by simp
qed

declare Scan.simps [simp del]

lemma readInput_length:
  "length (buf (readInput s)) + length (src (readInput s)) = length (buf s) + length (src s)"
  by (auto simp: readInput_def setErr_def Let_def)

text \<open>With a split function that advances with every token, a token shortens the
  input that is left.\<close>

lemma Scan_progress:
  assumes adv: "\<And>d e a t. splitf d e = (a, Some t) \<Longrightarrow> 0 < a"
  shows "Scan splitf s = (Some t, s') \<Longrightarrow>
           length (buf s') + length (src s') < length (buf s) + length (src s)"
  using adv
proof (induction splitf s rule: Scan.induct)
  case (1 splitf s)
  obtain a tk where
    sp: "(if buf s \<noteq> [] \<or> serr s \<noteq> None then splitf (buf s) (serr s \<noteq> None) else (0, None)) = (a, tk)"
    by (cases "if buf s \<noteq> [] \<or> serr s \<noteq> None then splitf (buf s) (serr s \<noteq> None) else (0, None)")
  let ?s1 = "s\<lparr>start := start s + a, buf := drop a (buf s)\<rparr>"
  have le: "a \<le> length (buf s)"
    using "1.prems"(1) sp by (subst (asm) Scan.simps) (auto split: if_splits)
  show ?case
  proof (cases tk)
    case (Some tok)
    with sp have "splitf (buf s) (serr s \<noteq> None) = (a, Some tok)" by (auto split: if_splits)
    from "1.prems"(2) [OF this] have pos: "0 < a" .
    from "1.prems"(1) sp Some le have "s' = ?s1"
      by (subst (asm) Scan.simps) simp
    with pos le show ?thesis by simp
  next
    case None
    note tk = None
    show ?thesis
    proof (cases "serr ?s1 \<noteq> None")
      case True
      with "1.prems"(1) sp tk le show ?thesis
        by (subst (asm) Scan.simps) simp
    next
      case False
      note ne = False
      show ?thesis
      proof (cases "makeRoom ?s1")
        case (Inl e)
        with "1.prems"(1) sp tk le ne show ?thesis
          by (subst (asm) Scan.simps) simp
      next
        case (Inr s2)
        with "1.prems"(1) sp tk le ne have rec: "Scan splitf (readInput s2) = (Some t, s')"
          by (subst (asm) Scan.simps) simp
        have "length (buf s') + length (src s')
                < length (buf (readInput s2)) + length (src (readInput s2))"
          using le ne
          by (intro "1.IH" [OF sp [symmetric] _ refl tk _ Inr rec "1.prems"(2)]) simp_all
        also have "\<dots> = length (buf s2) + length (src s2)" by (rule readInput_length)
        also have "\<dots> = length (buf ?s1) + length (src ?s1)"
          using makeRoom_fields [OF Inr] by simp
        also have "\<dots> \<le> length (buf s) + length (src s)" by simp
        finally show ?thesis .
      qed
    qed
  qed
qed

subsection \<open>The split function of \<^verbatim>\<open>NewWARC\<close>\<close>

text \<open>\<^verbatim>\<open>bytes.Index\<close>: the position of the first occurrence of \<open>sep\<close>.\<close>

fun bytes_Index :: "string \<Rightarrow> string \<Rightarrow> nat option" where
  "bytes_Index [] sep = (if sep = [] then Some 0 else None)"
| "bytes_Index (c # cs) sep =
     (if prefix sep (c # cs) then Some 0 else map_option Suc (bytes_Index cs sep))"

text \<open>
  The split function looks for the marker \<^verbatim>\<open>WARC/\<close> in the bytes it is given. Bytes
  before the first marker are a chunk of their own. A chunk that starts with the
  marker ends before the next occurrence of the marker, wherever that is, or at the
  end of the input.
\<close>

definition NewWARC_split :: SplitFunc where
  "NewWARC_split data atEOF =
     (if atEOF \<and> data = [] then (0, None)
      else (case bytes_Index data ''WARC/'' of
              Some i \<Rightarrow>
                if i > 0 then (i, Some (take i data))
                else (case bytes_Index (drop (i + 5) data) ''WARC/'' of
                        Some j \<Rightarrow> (i + j + 5, Some (take (j + 5) (drop i data)))
                      | None \<Rightarrow> if atEOF then (length data, Some data) else (0, None))
            | None \<Rightarrow> (0, None)))"

record WARC =
  scanner :: Scanner

definition NewWARC :: "string \<Rightarrow> WARC" where
  "NewWARC r = \<lparr>scanner = NewScanner r\<rparr>"

text \<open>\<^verbatim>\<open>NextChunk\<close>: the next token of the scanner, or \<^verbatim>\<open>io.EOF\<close> when \<^verbatim>\<open>Scan\<close> returns
  false.\<close>

definition NextChunk :: "WARC \<Rightarrow> (error + string) \<times> WARC" where
  "NextChunk w =
     (case Scan NewWARC_split (scanner w) of
        (None, s') \<Rightarrow> (Inl EOF, w\<lparr>scanner := s'\<rparr>)
      | (Some chunk, s') \<Rightarrow> (Inr chunk, w\<lparr>scanner := s'\<rparr>))"

definition marker :: string where
  "marker = ''WARC/''"

lemma bytes_Index_Some:
  "bytes_Index xs p = Some i \<Longrightarrow>
     prefix p (drop i xs) \<and> i \<le> length xs \<and> (\<forall>k<i. \<not> prefix p (drop k xs))"
proof (induction xs arbitrary: i)
  case Nil
  then show ?case by (simp split: if_splits)
next
  case (Cons c cs)
  show ?case
  proof (cases "prefix p (c # cs)")
    case True
    with Cons.prems show ?thesis by simp
  next
    case False
    with Cons.prems obtain j where j: "bytes_Index cs p = Some j" "i = Suc j" by auto
    from Cons.IH [OF j(1)] False j(2) show ?thesis
      by (auto simp: less_Suc_eq_0_disj)
  qed
qed

lemma NewWARC_split_marker:
  "NewWARC_split data atEOF =
     (if atEOF \<and> data = [] then (0, None)
      else (case bytes_Index data marker of
              Some i \<Rightarrow>
                if i > 0 then (i, Some (take i data))
                else (case bytes_Index (drop (i + 5) data) marker of
                        Some j \<Rightarrow> (i + j + 5, Some (take (j + 5) (drop i data)))
                      | None \<Rightarrow> if atEOF then (length data, Some data) else (0, None))
            | None \<Rightarrow> (0, None)))"
  by (simp only: NewWARC_split_def marker_def)

lemma length_marker: "length marker = 5"
  by (simp add: marker_def)

lemma NewWARC_split_advances: "NewWARC_split d e = (a, Some t) \<Longrightarrow> 0 < a"
proof -
  assume a: "NewWARC_split d e = (a, Some t)"
  show ?thesis
  proof (cases "bytes_Index d marker")
    case None
    with a show ?thesis by (simp add: NewWARC_split_marker split: if_splits)
  next
    case (Some i)
    from bytes_Index_Some [OF Some] have "length marker \<le> length (drop i d)"
      by (auto dest: prefix_length_le)
    then have "0 < length d" by (auto simp: length_marker)
    with a Some show ?thesis
      by (auto simp: NewWARC_split_marker split: if_splits option.splits)
  qed
qed

text \<open>The chunks that repeated calls of \<^verbatim>\<open>NextChunk\<close> give, up to the first call that
  returns an error.\<close>

function chunks :: "WARC \<Rightarrow> string list" where
  "chunks w =
     (case NextChunk w of
        (Inl e, w') \<Rightarrow> []
      | (Inr chunk, w') \<Rightarrow> chunk # chunks w')"
  by pat_completeness auto
termination
proof (relation "measure (\<lambda>w. length (buf (scanner w)) + length (src (scanner w)))", goal_cases)
  case 1
  show ?case by simp
next
  case (2 w x y chunk)
  then obtain s' where "Scan NewWARC_split (scanner w) = (Some chunk, s')" "y = w\<lparr>scanner := s'\<rparr>"
    by (auto simp: NextChunk_def split: prod.splits option.splits)
  with Scan_progress [of NewWARC_split "scanner w" chunk s', OF NewWARC_split_advances]
  show ?case by simp
qed

declare chunks.simps [simp del]

text \<open>
  The bytes of a record after its opening marker, for a record that the segmenter
  hands out whole: the marker does not occur in them, and the record and the marker
  of the next one fit into the largest buffer of the scanner.
\<close>

definition record_body :: "string \<Rightarrow> bool" where
  "record_body b = (bytes_Index b marker = None \<and> length b + 10 \<le> MaxScanTokenSize)"

section \<open>Example inputs\<close>

text \<open>Byte blocks used to run the codec. Lines end in a line feed, as in the tests of the
  repository; the decoder trims a carriage return before it along with other spaces.\<close>

definition LF :: string where "LF = [CHR 0x0A]"

definition bad_segment_number :: string where
  "bad_segment_number =
     ''WARC/1.0'' @ LF @
     ''WARC-Type: continuation'' @ LF @
     ''WARC-Date: 2024-01-01T10:00:00Z'' @ LF @
     ''WARC-Record-ID: <urn:uuid:abc>'' @ LF @
     ''WARC-Segment-Number: abc'' @ LF @
     ''Content-Length: xyz'' @ LF @ LF"

text \<open>The record of the specification's decoding scenario, with its line ends
  (carriage return, line feed).\<close>

definition date_line :: string where
  "date_line = ''WARC-Date: 2024-01-01T10:00:00Z''"

definition spec_example :: string where
  "spec_example =
     ''WARC/1.0'' @ CRLF @
     ''WARC-Type: response'' @ CRLF @
     date_line @ CRLF @
     ''WARC-Record-ID: <urn:uuid:abc>'' @ CRLF @
     ''Content-Length: 13'' @ CRLF @
     ''Content-Type: text/plain'' @ CRLF @ CRLF @
     ''Hello, World!''"

text \<open>A block with a version line, a content length and a payload, and none of
  \<^verbatim>\<open>WARC-Record-ID\<close>, \<^verbatim>\<open>WARC-Date\<close>, \<^verbatim>\<open>WARC-Type\<close>.\<close>

definition anonymous_block :: string where
  "anonymous_block = ''WARC/1.0'' @ CRLF @ ''Content-Length: 5'' @ CRLF @ CRLF @ ''Hello''"

text \<open>Records to encode: the first case of the repository's \<^verbatim>\<open>TestMarshal\<close>, and a
  record with a list of concurrent records and a consistent content length.\<close>

definition basic_record :: WARCRecord where
  "basic_record =
     zero_WARCRecord\<lparr>Version := WARCVariant1_0, Type := ''response'',
       Date := UTC 2024 1 1 10 0 0,
       RecordID := ''<urn:uuid:12345678-1234-1234-1234-123456789012>'',
       ContentType := ''text/plain'', Content := ''Hello, World!''\<rparr>"

definition concurrent_record :: WARCRecord where
  "concurrent_record =
     zero_WARCRecord\<lparr>Version := WARCVariant1_0, Type := ''resource'',
       Date := UTC 2024 1 1 10 0 0, RecordID := ''<urn:uuid:12345678>'',
       ConcurrentTo := [''<urn:uuid:concurrent1>'', ''<urn:uuid:concurrent2>''],
       ContentLength := 5, Content := ''Hello''\<rparr>"

text \<open>The first case of \<^verbatim>\<open>TestMarshal\<close> that must fail: a record with a version and
  nothing else.\<close>

definition version_only :: WARCRecord where
  "version_only = zero_WARCRecord\<lparr>Version := WARCVariant1_0\<rparr>"

text \<open>A block with a kind, a date and a content length, and no \<^verbatim>\<open>WARC-Record-ID\<close>
  line.\<close>

definition no_id_block :: string where
  "no_id_block =
     ''WARC/1.1'' @ CRLF @
     ''WARC-Type: resource'' @ CRLF @
     date_line @ CRLF @
     ''Content-Length: 0'' @ CRLF @ CRLF"

text \<open>A record with the five bytes \<^verbatim>\<open>WARC/\<close> as its payload.\<close>

definition marker_payload_body :: string where
  "marker_payload_body =
     ''1.0'' @ CRLF @
     ''WARC-Type: resource'' @ CRLF @
     date_line @ CRLF @
     ''WARC-Record-ID: <urn:uuid:abc>'' @ CRLF @
     ''Content-Length: 5'' @ CRLF @ CRLF"

definition marker_payload_record :: string where
  "marker_payload_record = ''WARC/'' @ marker_payload_body @ ''WARC/''"

section \<open>Properties of the WARC decoder\<close>

subsection \<open>The decoder never reports a field conversion error\<close>

lemma setField_Inr: "\<exists>x. setField field value = Inr x"
  by (cases field) (auto split: prod.splits bool.splits option.splits)

lemma setFields_Inr: "\<exists>r'. setFields headers fs r = Inr r'"
proof (induction fs arbitrary: r)
  case Nil
  show ?case by simp
next
  case (Cons f fs)
  obtain x where
    x: "setField (Field r f) (lookup headers (Split (Tag_Get_warc f) (CHR '','') ! 0)) = Inr x"
    using setField_Inr by blast
  show ?case
    using Cons.IH [of r] Cons.IH [of "SetField f x r"] x
    by (simp add: Let_def)
qed

lemma readHeaders_errors:
  "readHeaders reader headers = Inl err \<Longrightarrow>
     err = FailedToReadHeader \<or> (\<exists>line. err = InvalidHeaderFormat line)"
proof (induction reader headers rule: readHeaders.induct)
  case (1 reader headers)
  show ?case
  proof (cases "ReadString (CHR 0x0A) [] reader")
    case None
    with "1.prems" show ?thesis by (simp add: readHeaders.simps [of reader headers])
  next
    case (Some p)
    obtain line0 reader' where p: "p = (line0, reader')" by (cases p)
    show ?thesis
    proof (cases "TrimSpace line0 = []")
      case True
      with Some p "1.prems" show ?thesis by (simp add: readHeaders.simps [of reader headers])
    next
      case False
      note nb = False
      show ?thesis
      proof (cases "length (SplitN2 (TrimSpace line0) (CHR '':'')) \<noteq> 2")
        case True
        with Some p nb "1.prems" show ?thesis
          by (auto simp add: readHeaders.simps [of reader headers] Let_def)
      next
        case False
        with Some p nb "1.prems" have
          "readHeaders reader' (headers(TrimSpace (SplitN2 (TrimSpace line0) (CHR '':'') ! 0) \<mapsto>
              TrimSpace (SplitN2 (TrimSpace line0) (CHR '':'') ! 1))) = Inl err"
          by (simp add: readHeaders.simps [of reader headers] Let_def)
        from "1.IH" [OF Some p [symmetric] refl nb refl False this] show ?thesis .
      qed
    qed
  qed
qed

text \<open>
  Claim C7, as amended. When the header value of an integer field does not parse,
  \<open>setField\<close> returns no error and leaves the field at the value it had; no call of
  \<open>Unmarshal\<close> fails with the error that wraps a \<open>setField\<close> failure.
\<close>

theorem C7_parse_failure_ignored:
  "(\<not> snd (ParseInt value) \<longrightarrow> setField (VInt old) value = Inr (VInt old))
   \<and> Unmarshal data v \<noteq> Inl (FailedToSetField f err)"
proof
  show "\<not> snd (ParseInt value) \<longrightarrow> setField (VInt old) value = Inr (VInt old)"
    by (auto split: prod.splits bool.splits)
next
  show "Unmarshal data v \<noteq> Inl (FailedToSetField f err)"
  proof
    assume a: "Unmarshal data v = Inl (FailedToSetField f err)"
    show False
    proof (cases "ReadString (CHR 0x0A) [] (NewReader data)")
      case None
      with a show False by (simp add: Unmarshal_def)
    next
      case (Some p)
      obtain versionLine reader where p: "p = (versionLine, reader)" by (cases p)
      let ?version = "TrimSpace (TrimPrefix versionLine ''WARC/'')"
      show False
      proof (cases "?version \<noteq> WARCVariant1_0 \<and> ?version \<noteq> WARCVariant1_1")
        case True
        with a Some p show False by (simp add: Unmarshal_def Let_def)
      next
        case False
        note ver = False
        show False
        proof (cases v)
          case (Ptr r)
          show False
          proof (cases "readHeaders reader Map.empty")
            case (Inl e)
            with a Some p ver Ptr have "e = FailedToSetField f err"
              by (simp add: Unmarshal_def Let_def)
            with readHeaders_errors [OF Inl] show False by auto
          next
            case (Inr q)
            obtain headers reader' where q: "q = (headers, reader')" by (cases q)
            let ?n = "fst (ParseInt (lookup headers ''Content-Length''))"
            show False
            proof (cases "?n < 0 \<or> ?n > maxAlloc")
              case True
              with a Some p ver Ptr Inr q show False
                by (simp add: Unmarshal_def Let_def)
            next
              case False
              note ok = False
              show False
              proof (cases "Read (nat ?n) reader'")
                case None
                with a Some p ver Ptr Inr q ok show False
                  by (simp add: Unmarshal_def Let_def)
              next
                case (Some bs)
                obtain r' where "setFields headers WARCRecord_fields
                    (r\<lparr>Version := ?version, Content := bs @ replicate (nat ?n - length bs) (CHR 0x00)\<rparr>) = Inr r'"
                  using setFields_Inr by blast
                with a \<open>ReadString (CHR 0x0A) [] (NewReader data) = Some p\<close> p ver Ptr Inr q ok Some
                show False by (simp add: Unmarshal_def Let_def)
              qed
            qed
          qed
        qed (use a Some p ver in \<open>simp_all add: Unmarshal_def Let_def\<close>)
      qed
    qed
  qed
qed

text \<open>The theorem at a header value that is no number.\<close>

theorem C7_witness:
  "\<not> snd (ParseInt ''abc'') \<and> setField (VInt 0) ''abc'' = Inr (VInt 0)
   \<and> Unmarshal bad_segment_number (Ptr zero_WARCRecord) \<noteq> Inl (FailedToSetField FSegmentNumber FailedToReadHeader)"
  using C7_parse_failure_ignored [of "''abc''" 0 bad_segment_number "Ptr zero_WARCRecord" FSegmentNumber FailedToReadHeader]
  by code_simp

text \<open>
  Claim C7 as stated fails: a block whose \<^verbatim>\<open>WARC-Segment-Number\<close> and \<^verbatim>\<open>Content-Length\<close>
  values are not integers decodes without error, and the segment number of the result
  is zero.
\<close>

theorem C7_counterexample:
  "ParseInt ''abc'' = (0, False) \<and>
   Unmarshal bad_segment_number (Ptr zero_WARCRecord) =
     Inr (zero_WARCRecord\<lparr>Version := ''1.0'', RecordID := ''<urn:uuid:abc>'',
            Date := UTC 2024 1 1 10 0 0, Type := ''continuation''\<rparr>)"
  by code_simp

subsection \<open>Lines of the header block\<close>





























subsection \<open>What a successful decode stores\<close>

lemma SetField_Version: "Tag_Get_warc f \<noteq> [] \<Longrightarrow> Version (SetField f x r) = Version r"
  by (cases f; cases x) (simp_all add: SetField_def SetString_def)

lemma setFields_Version: "setFields h fs r = Inr r' \<Longrightarrow> Version r' = Version r"
proof (induction fs arbitrary: r)
  case Nil
  then show ?case by simp
next
  case (Cons f fs)
  then show ?case
    by (auto simp: Let_def SetField_Version split: if_splits sum.splits)
qed

lemma SetField_Content: "Tag_Get_warc f \<noteq> [] \<Longrightarrow> Content (SetField f x r) = Content r"
  by (cases f; cases x) (simp_all add: SetField_def SetString_def)

lemma SetField_RecordID: "f \<noteq> FRecordID \<Longrightarrow> RecordID (SetField f x r) = RecordID r"
  by (cases f; cases x) (simp_all add: SetField_def SetString_def)

lemma SetField_Type: "f \<noteq> FType \<Longrightarrow> Type (SetField f x r) = Type r"
  by (cases f; cases x) (simp_all add: SetField_def SetString_def)

lemma SetField_Date: "f \<noteq> FDate \<Longrightarrow> Date (SetField f x r) = Date r"
  by (cases f; cases x) (simp_all add: SetField_def SetString_def)

lemma setFields_Content: "setFields h fs r = Inr r' \<Longrightarrow> Content r' = Content r"
proof (induction fs arbitrary: r)
  case Nil
  then show ?case by simp
next
  case (Cons f fs)
  then show ?case
    by (auto simp: Let_def SetField_Content split: if_splits sum.splits)
qed

lemma setFields_RecordID:
  "setFields h fs r = Inr r' \<Longrightarrow>
     RecordID r' = (if FRecordID \<in> set fs then lookup h ''WARC-Record-ID'' else RecordID r)"
proof (induction fs arbitrary: r)
  case Nil
  then show ?case by simp
next
  case (Cons f fs)
  show ?case
  proof (cases "f = FRecordID")
    case True
    with Cons.prems have "setFields h fs (r\<lparr>RecordID := lookup h ''WARC-Record-ID''\<rparr>) = Inr r'"
      by (simp add: Let_def SetField_def SetString_def)
    from Cons.IH [OF this] True show ?thesis by simp
  next
    case False
    with Cons show ?thesis
      by (auto simp: Let_def SetField_RecordID split: if_splits sum.splits)
  qed
qed

lemma setFields_Type:
  "setFields h fs r = Inr r' \<Longrightarrow>
     Type r' = (if FType \<in> set fs then lookup h ''WARC-Type'' else Type r)"
proof (induction fs arbitrary: r)
  case Nil
  then show ?case by simp
next
  case (Cons f fs)
  show ?case
  proof (cases "f = FType")
    case True
    with Cons.prems have "setFields h fs (r\<lparr>Type := lookup h ''WARC-Type''\<rparr>) = Inr r'"
      by (simp add: Let_def SetField_def SetString_def)
    from Cons.IH [OF this] True show ?thesis by simp
  next
    case False
    with Cons show ?thesis
      by (auto simp: Let_def SetField_Type split: if_splits sum.splits)
  qed
qed

lemma setFields_Date_absent:
  "setFields h fs r = Inr r' \<Longrightarrow> h ''WARC-Date'' = None \<Longrightarrow> Date r' = Date r"
proof (induction fs arbitrary: r)
  case Nil
  then show ?case by simp
next
  case (Cons f fs)
  show ?case
  proof (cases "f = FDate")
    case True
    with Cons.prems have "setFields h fs r = Inr r'"
      by (simp add: Let_def SetField_def lookup_def time_Parse_empty)
    from Cons.IH [OF this Cons.prems(2)] show ?thesis .
  next
    case False
    with Cons show ?thesis
      by (auto simp: Let_def SetField_Date split: if_splits sum.splits)
  qed
qed

lemma Unmarshal_Inr:
  assumes "Unmarshal data v = Inr r'"
  obtains r versionLine reader h reader' bs where
    "v = Ptr r"
    "ReadString (CHR 0x0A) [] (NewReader data) = Some (versionLine, reader)"
    "TrimSpace (TrimPrefix versionLine ''WARC/'') = WARCVariant1_0
       \<or> TrimSpace (TrimPrefix versionLine ''WARC/'') = WARCVariant1_1"
    "readHeaders reader Map.empty = Inr (h, reader')"
    "0 \<le> fst (ParseInt (lookup h ''Content-Length''))"
    "Read (nat (fst (ParseInt (lookup h ''Content-Length'')))) reader' = Some bs"
    "setFields h WARCRecord_fields
       (r\<lparr>Version := TrimSpace (TrimPrefix versionLine ''WARC/''),
           Content := bs @ replicate (nat (fst (ParseInt (lookup h ''Content-Length''))) - length bs) (CHR 0x00)\<rparr>)
       = Inr r'"
  using assms unfolding Unmarshal_def
  by (auto simp: Let_def split: option.splits prod.splits if_splits arg.splits sum.splits)

lemma Read_length: "Read n b = Some bs \<Longrightarrow> length bs \<le> n"
  by (auto simp: Read_def split: if_splits)

lemma headersOf_Unmarshal:
  "ReadString (CHR 0x0A) [] (NewReader data) = Some (versionLine, reader) \<Longrightarrow>
   readHeaders reader Map.empty = Inr (h, reader') \<Longrightarrow> headersOf data = Some h"
  by (simp add: headersOf_def)

text \<open>
  Claim C3, as amended. After every successful decode the payload has as many bytes as
  the \<^verbatim>\<open>Content-Length\<close> header declares (none when the header is absent or no number);
  the version is 1.0 or 1.1; \<open>RecordID\<close> and \<open>Type\<close> hold the trimmed text of their
  header lines and are empty when the block has no such line; \<open>Date\<close> is left as it was
  when the block has no \<^verbatim>\<open>WARC-Date\<close> line.
\<close>

theorem C3_decoded_record:
  assumes "Unmarshal data v = Inr r'"
  shows "\<exists>r h. v = Ptr r \<and> headersOf data = Some h
           \<and> int (length (Content r')) = fst (ParseInt (lookup h ''Content-Length''))
           \<and> (Version r' = WARCVariant1_0 \<or> Version r' = WARCVariant1_1)
           \<and> RecordID r' = lookup h ''WARC-Record-ID''
           \<and> Type r' = lookup h ''WARC-Type''
           \<and> (h ''WARC-Date'' = None \<longrightarrow> Date r' = Date r)"
proof -
  from assms obtain r versionLine reader h reader' bs where
    v: "v = Ptr r"
    and rs: "ReadString (CHR 0x0A) [] (NewReader data) = Some (versionLine, reader)"
    and ver: "TrimSpace (TrimPrefix versionLine ''WARC/'') = WARCVariant1_0
               \<or> TrimSpace (TrimPrefix versionLine ''WARC/'') = WARCVariant1_1"
    and rh: "readHeaders reader Map.empty = Inr (h, reader')"
    and n0: "0 \<le> fst (ParseInt (lookup h ''Content-Length''))"
    and rd: "Read (nat (fst (ParseInt (lookup h ''Content-Length'')))) reader' = Some bs"
    and sf: "setFields h WARCRecord_fields
       (r\<lparr>Version := TrimSpace (TrimPrefix versionLine ''WARC/''),
           Content := bs @ replicate (nat (fst (ParseInt (lookup h ''Content-Length''))) - length bs) (CHR 0x00)\<rparr>)
       = Inr r'"
    by (rule Unmarshal_Inr)
  let ?n = "fst (ParseInt (lookup h ''Content-Length''))"
  have "Content r' = bs @ replicate (nat ?n - length bs) (CHR 0x00)"
    using setFields_Content [OF sf] by simp
  then have len: "int (length (Content r')) = ?n"
    using Read_length [OF rd] n0 by simp
  have version: "Version r' = TrimSpace (TrimPrefix versionLine ''WARC/'')"
    using setFields_Version [OF sf] by simp
  have id: "RecordID r' = lookup h ''WARC-Record-ID''"
    using setFields_RecordID [OF sf] by (simp add: WARCRecord_fields_def)
  have type: "Type r' = lookup h ''WARC-Type''"
    using setFields_Type [OF sf] by (simp add: WARCRecord_fields_def)
  have date: "h ''WARC-Date'' = None \<longrightarrow> Date r' = Date r"
    using setFields_Date_absent [OF sf] by simp
  show ?thesis
    using v headersOf_Unmarshal [OF rs rh] len version ver id type date by auto
qed

text \<open>The theorem at the specification's example: thirteen bytes of payload, the
  identifier and the kind of the header lines.\<close>

theorem C3_witness:
  "Unmarshal spec_example (Ptr zero_WARCRecord) =
     Inr (zero_WARCRecord\<lparr>Version := ''1.0'', RecordID := ''<urn:uuid:abc>'',
            Date := UTC 2024 1 1 10 0 0, Type := ''response'',
            ContentType := ''text/plain'', Content := ''Hello, World!''\<rparr>)
   \<and> (\<exists>h. headersOf spec_example = Some h
          \<and> fst (ParseInt (lookup h ''Content-Length'')) = 13
          \<and> lookup h ''WARC-Record-ID'' = ''<urn:uuid:abc>''
          \<and> lookup h ''WARC-Type'' = ''response'')"
proof -
  let ?r = "zero_WARCRecord\<lparr>Version := ''1.0'', RecordID := ''<urn:uuid:abc>'',
            Date := UTC 2024 1 1 10 0 0, Type := ''response'',
            ContentType := ''text/plain'', Content := ''Hello, World!''\<rparr>"
  have u: "Unmarshal spec_example (Ptr zero_WARCRecord) = Inr ?r"
    by code_simp
  from C3_decoded_record [OF u] obtain h where
    "headersOf spec_example = Some h"
    "int (length (Content ?r)) = fst (ParseInt (lookup h ''Content-Length''))"
    "RecordID ?r = lookup h ''WARC-Record-ID''" "Type ?r = lookup h ''WARC-Type''"
    by blast
  then show ?thesis using u by (intro conjI exI [of _ h]) simp_all
qed

text \<open>
  Claim C3 as stated fails. A block with a version line and a content length and no
  other header is WARC data by the repository's own check \<open>Valid\<close> and decodes
  without error; the record has no identifier, no kind and the zero date, and its
  content-length field is 0 beside a payload of five bytes.
\<close>

theorem C3_counterexample:
  "Valid anonymous_block = None \<and>
   Unmarshal anonymous_block (Ptr zero_WARCRecord) =
     Inr (zero_WARCRecord\<lparr>Version := ''1.0'', Content := ''Hello''\<rparr>) \<and>
   RecordID zero_WARCRecord = [] \<and> Type zero_WARCRecord = [] \<and> IsZero (Date zero_WARCRecord) \<and>
   ContentLength zero_WARCRecord \<noteq> length ''Hello''"
  by code_simp

section \<open>Properties of the WARC encoder\<close>

subsection \<open>The header lines and their order\<close>

lemma put_fresh: "k \<notin> fst ` set kvs \<Longrightarrow> put k v kvs = kvs @ [(k, v)]"
  by (induction kvs) auto

lemma marshalHeaders_declared:
  "distinct (map headerName (filter (\<lambda>f. Tag_Get_warc f \<noteq> []) fs)) \<Longrightarrow>
   headerName ` set (filter (\<lambda>f. Tag_Get_warc f \<noteq> []) fs) \<inter> fst ` set acc = {} \<Longrightarrow>
   marshalHeaders val fs acc =
     acc @ map (\<lambda>f. (headerName f, formatFieldValue (Field val f))) (filter (emitted val) fs)"
proof (induction fs arbitrary: acc)
  case Nil
  show ?case by simp
next
  case (Cons f fs)
  show ?case
  proof (cases "Tag_Get_warc f = []")
    case True
    with Cons show ?thesis by (simp add: emitted_def)
  next
    case False
    note tagged = False
    from Cons.prems tagged
    have d: "distinct (map headerName (filter (\<lambda>f. Tag_Get_warc f \<noteq> []) fs))"
      and fresh: "headerName f \<notin> headerName ` set (filter (\<lambda>f. Tag_Get_warc f \<noteq> []) fs)"
      and facc: "headerName f \<notin> fst ` set acc"
      and disj: "headerName ` set (filter (\<lambda>f. Tag_Get_warc f \<noteq> []) fs) \<inter> fst ` set acc = {}"
      by auto
    show ?thesis
    proof (cases "emitted val f")
      case False
      with tagged have "marshalHeaders val (f # fs) acc = marshalHeaders val fs acc"
        by (auto simp: emitted_def headerName_def Let_def)
      with Cons.IH [OF d disj] False show ?thesis by simp
    next
      case True
      let ?kv = "(headerName f, formatFieldValue (Field val f))"
      from True tagged have "marshalHeaders val (f # fs) acc =
          marshalHeaders val fs (put (headerName f) (formatFieldValue (Field val f)) acc)"
        by (auto simp: emitted_def headerName_def Let_def)
      also have "\<dots> = marshalHeaders val fs (acc @ [?kv])"
        using facc by (simp add: put_fresh)
      also have "\<dots> = (acc @ [?kv]) @
          map (\<lambda>f. (headerName f, formatFieldValue (Field val f))) (filter (emitted val) fs)"
        using d disj fresh by (intro Cons.IH) auto
      finally show ?thesis using True by simp
    qed
  qed
qed

lemma WARCRecord_header_names_distinct:
  "distinct (map headerName (filter (\<lambda>f. Tag_Get_warc f \<noteq> []) WARCRecord_fields))"
  by (simp add: WARCRecord_fields_def headerName_def parseTag_def Let_def)

lemma marshalHeaders_WARCRecord:
  "marshalHeaders val WARCRecord_fields [] =
     map (\<lambda>f. (headerName f, formatFieldValue (Field val f)))
         (filter (emitted val) WARCRecord_fields)"
  using marshalHeaders_declared [OF WARCRecord_header_names_distinct, of "[]" val] by simp

text \<open>
  Claim C4, as amended. For every record the encoder accepts, the output is the version
  line, then exactly one \<^verbatim>\<open>Key: Value\<close> line for each tagged field that is not omitted,
  in the order in which \<^verbatim>\<open>range\<close> visits the map of headers (some rearrangement of
  the declaration order, not fixed from call to call), then a \<^verbatim>\<open>Content-Length\<close> line
  computed from the payload, a blank line and the payload.
\<close>

theorem C4_header_lines:
  assumes "range_order visit" and "Validate r = None"
  shows "\<exists>lines. mset lines = mset (declared_lines r)
           \<and> Marshal visit (Ptr r) =
               Inr (''WARC/'' @ Version r @ CRLF @ concat lines @
                    ''Content-Length: '' @ FormatInt (int (length (Content r))) @ CRLF @
                    CRLF @ Content r)"
proof -
  let ?line = "\<lambda>(name, value). name @ '': '' @ value @ CRLF"
  let ?hs = "marshalHeaders r WARCRecord_fields []"
  have "mset (map ?line (visit ?hs)) = mset (map ?line ?hs)"
    using assms(1) by (simp add: range_order_def)
  also have "map ?line ?hs = declared_lines r"
    by (simp add: marshalHeaders_WARCRecord declared_lines_def)
  finally have "mset (map ?line (visit ?hs)) = mset (declared_lines r)" .
  moreover have "Marshal visit (Ptr r) =
      Inr (''WARC/'' @ Version r @ CRLF @ concat (map ?line (visit ?hs)) @
           ''Content-Length: '' @ FormatInt (int (length (Content r))) @ CRLF @ CRLF @ Content r)"
    using assms(2) by (simp add: encode_def)
  ultimately show ?thesis by blast
qed

text \<open>The theorem at the basic record of the tests, the map visited last entry
  first.\<close>

theorem C4_witness:
  "range_order rev \<and> Validate basic_record = None
   \<and> (\<exists>lines. mset lines = mset (declared_lines basic_record)
         \<and> Marshal rev (Ptr basic_record) =
             Inr (''WARC/'' @ Version basic_record @ CRLF @ concat lines @
                  ''Content-Length: '' @ FormatInt (int (length (Content basic_record))) @ CRLF @
                  CRLF @ Content basic_record))"
proof -
  have 1: "range_order rev" by (simp add: range_order_def)
  have 2: "Validate basic_record = None" by code_simp
  from C4_header_lines [OF 1 2] 1 2 show ?thesis by blast
qed

text \<open>
  Claim C4 as stated fails: the lines follow the order of a map iteration. Visiting
  the headers of the basic record in insertion order and in the reverse order, two of
  the orders \<^verbatim>\<open>range\<close> may take, gives different bytes for the same record.
\<close>

theorem C4_counterexample:
  "range_order (\<lambda>kvs. kvs) \<and> range_order rev \<and> Validate basic_record = None
   \<and> Marshal (\<lambda>kvs. kvs) (Ptr basic_record) \<noteq> Marshal rev (Ptr basic_record)"
proof -
  have "range_order (\<lambda>kvs. kvs)" "range_order rev" by (simp_all add: range_order_def)
  moreover have "Validate basic_record = None" by code_simp
  moreover have "Marshal (\<lambda>kvs. kvs) (Ptr basic_record) \<noteq> Marshal rev (Ptr basic_record)"
    by code_simp
  ultimately show ?thesis by blast
qed

subsection \<open>Validation of required fields\<close>

text \<open>
  Claim C10. \<open>Marshal\<close> validates only through a pointer: for a record that lacks a
  required field, \<open>Marshal\<close> of the pointer returns the error of \<open>Validate\<close>, and
  \<open>Marshal\<close> of the same record by value returns the encoded bytes.
\<close>

theorem C10_validation_only_through_pointer:
  assumes "Version r = [] \<or> RecordID r = [] \<or> IsZero (Date r) \<or> Type r = []"
  shows "(\<exists>err. Validate r = Some err \<and> Marshal visit (Ptr r) = Inl err)
         \<and> Marshal visit (Val r) = Inr (encode visit r)"
  using assms by (auto simp: Validate_def)

text \<open>The theorem at the record that has a version only.\<close>

theorem C10_witness:
  "(Version version_only = [] \<or> RecordID version_only = [] \<or> IsZero (Date version_only)
      \<or> Type version_only = [])
   \<and> Marshal (\<lambda>kvs. kvs) (Ptr version_only) = Inl RecordIDRequired
   \<and> Marshal (\<lambda>kvs. kvs) (Val version_only) = Inr (encode (\<lambda>kvs. kvs) version_only)"
proof -
  have 1: "Version version_only = [] \<or> RecordID version_only = [] \<or> IsZero (Date version_only)
      \<or> Type version_only = []"
    by (simp add: version_only_def zero_WARCRecord_def)
  have 2: "Validate version_only = Some RecordIDRequired" by code_simp
  from C10_validation_only_through_pointer [OF 1, of "\<lambda>kvs. kvs"] 1 2 show ?thesis by auto
qed

lemma setFields_not_Inl: "setFields h fs r \<noteq> Inl err"
  using setFields_Inr [of h fs r] by auto

lemma Unmarshal_Inl:
  assumes "Unmarshal data v = Inl err"
  shows "err \<in> {FailedToReadVersion, MustBePointer, FailedToReadHeader, FailedToReadContent,
                 PanicMakeslice}
         \<or> (\<exists>s. err = UnsupportedWARCVersion s) \<or> (\<exists>s. err = InvalidHeaderFormat s)"
  using assms unfolding Unmarshal_def
  by (auto simp: Let_def setFields_not_Inl
           split: option.splits prod.splits if_splits arg.splits sum.splits
           dest: readHeaders_errors)

text \<open>
  Claim C5, as amended. Encoding a record through a pointer fails with the error of
  \<open>Validate\<close> when the version, the identifier or the kind is empty or the date is
  zero. Decoding does not check for required keys: no decode fails with a
  missing-field error, and a successful decode of a block that has no
  \<^verbatim>\<open>WARC-Record-ID\<close> line leaves the identifier empty.
\<close>

theorem C5_required_fields:
  "(Validate r = Some err \<longrightarrow> Marshal visit (Ptr r) = Inl err)
   \<and> Unmarshal data v \<notin> Inl ` {VersionRequired, RecordIDRequired, DateRequired, TypeRequired}
   \<and> (Unmarshal data v = Inr r' \<and> headersOf data = Some h \<and> h ''WARC-Record-ID'' = None
        \<longrightarrow> RecordID r' = [])"
proof (intro conjI impI)
  assume "Validate r = Some err"
  then show "Marshal visit (Ptr r) = Inl err" by simp
next
  show "Unmarshal data v \<notin> Inl ` {VersionRequired, RecordIDRequired, DateRequired, TypeRequired}"
    using Unmarshal_Inl [of data v] by auto
next
  assume a: "Unmarshal data v = Inr r' \<and> headersOf data = Some h \<and> h ''WARC-Record-ID'' = None"
  from a obtain r versionLine reader h' reader' bs where
    rs: "ReadString (CHR 0x0A) [] (NewReader data) = Some (versionLine, reader)"
    and rh: "readHeaders reader Map.empty = Inr (h', reader')"
    and sf: "setFields h' WARCRecord_fields
       (r\<lparr>Version := TrimSpace (TrimPrefix versionLine ''WARC/''),
           Content := bs @ replicate (nat (fst (ParseInt (lookup h' ''Content-Length''))) - length bs) (CHR 0x00)\<rparr>)
       = Inr r'"
    by (auto elim: Unmarshal_Inr)
  from headersOf_Unmarshal [OF rs rh] a have "h' = h" by simp
  with setFields_RecordID [OF sf] a show "RecordID r' = []"
    by (simp add: WARCRecord_fields_def lookup_def)
qed

text \<open>The theorem at the record with a version only, and at the block without an
  identifier line.\<close>

theorem C5_witness:
  "Validate version_only = Some RecordIDRequired
   \<and> Marshal (\<lambda>kvs. kvs) (Ptr version_only) = Inl RecordIDRequired
   \<and> (\<exists>r' h. Unmarshal no_id_block (Ptr zero_WARCRecord) = Inr r'
         \<and> headersOf no_id_block = Some h \<and> h ''WARC-Record-ID'' = None \<and> RecordID r' = [])"
proof -
  have v: "Validate version_only = Some RecordIDRequired" by code_simp
  have u: "Unmarshal no_id_block (Ptr zero_WARCRecord) =
             Inr (zero_WARCRecord\<lparr>Version := ''1.1'', Date := UTC 2024 1 1 10 0 0,
                    Type := ''resource''\<rparr>)" (is "_ = Inr ?r'")
    by code_simp
  have "headersOf no_id_block \<noteq> None" by code_simp
  then obtain h where h: "headersOf no_id_block = Some h" by auto
  have n: "(case headersOf no_id_block of Some h \<Rightarrow> h ''WARC-Record-ID'' | None \<Rightarrow> Some []) = None"
    by code_simp
  with h have hn: "h ''WARC-Record-ID'' = None" by simp
  from C5_required_fields [of version_only RecordIDRequired "\<lambda>kvs. kvs" no_id_block
      "Ptr zero_WARCRecord" ?r' h] v u h hn
  show ?thesis by blast
qed

text \<open>
  Claim C5 as stated fails on the decoding side: the block without a
  \<^verbatim>\<open>WARC-Record-ID\<close> line (it has no letter I at all) decodes without error, and the
  identifier of the record is the empty string.
\<close>

theorem C5_counterexample:
  "CHR ''I'' \<notin> set no_id_block \<and>
   Unmarshal no_id_block (Ptr zero_WARCRecord) =
     Inr (zero_WARCRecord\<lparr>Version := ''1.1'', Date := UTC 2024 1 1 10 0 0,
            Type := ''resource''\<rparr>) \<and>
   RecordID zero_WARCRecord = []"
  by code_simp

subsection \<open>Round trip\<close>

text \<open>
  Claim C2 does not hold of the code. The record \<open>concurrent_record\<close> passes
  \<open>Validate\<close> and its content length is the length of its payload; encoding it and
  decoding the bytes gives back a record whose list of concurrent records is empty
  and whose content length is 0. \<open>setField\<close> of the decoder has no case for a slice or
  for an unsigned integer, the kinds \<open>formatFieldValue\<close> of the encoder writes.
\<close>

theorem C2_round_trip_loses_fields:
  "Validate concurrent_record = None \<and>
   ContentLength concurrent_record = length (Content concurrent_record) \<and>
   (case Marshal (\<lambda>kvs. kvs) (Ptr concurrent_record) of
      Inl err \<Rightarrow> False
    | Inr data \<Rightarrow>
        Unmarshal data (Ptr zero_WARCRecord) =
          Inr (concurrent_record\<lparr>ConcurrentTo := [], ContentLength := 0\<rparr>))"
  by code_simp

section \<open>Properties of the CDX row codec\<close>

lemma cdxField_zero: "formatField (cdxField zero_CDXRecord f) = ''-''"
  by (cases f) (simp_all add: zero_CDXRecord_def IsZero_zero_time)

lemma cdxSet_string:
  "cdxField record f = VString old \<Longrightarrow> cdxField (cdxSet f (VString x) record) f = VString x"
  by (cases f) (simp_all add: cdxSet_def cdxSetString_def)

lemma marshalRecord_zero:
  assumes "\<forall>field\<in>set flds. known_field field"
  shows "marshalRecord zero_CDXRecord flds delimiter = joinFields (replicate (length flds) ''-'') delimiter"
proof -
  have "map (\<lambda>field. case find (\<lambda>f. Tag_Get_cdx f = string_of_rune field) CDXRecord_fields of
                         None \<Rightarrow> []
                       | Some f \<Rightarrow> formatField (cdxField zero_CDXRecord f)) flds
        = replicate (length flds) ''-''"
    using assms
    by (induction flds) (auto simp: known_field_def cdxField_zero split: option.splits)
  then show ?thesis by (simp add: marshalRecord_def)
qed

text \<open>
  Claim C6, as amended. On encode a column whose value is the empty string, the integer
  zero or the zero time is written as \<^verbatim>\<open>-\<close>, so the zero record is a row of \<^verbatim>\<open>-\<close> in any
  format of known columns. On decode a \<^verbatim>\<open>-\<close> in a column of string kind is stored as
  the string \<^verbatim>\<open>-\<close>, without error.
\<close>

theorem C6_sentinel:
  "(v = VString [] \<or> v = VInt 0 \<or> v = VTime zero_time \<longrightarrow> formatField v = ''-'')
   \<and> ((\<forall>field\<in>set flds. known_field field) \<longrightarrow>
        marshalRecord zero_CDXRecord flds delimiter
          = joinFields (replicate (length flds) ''-'') delimiter)
   \<and> (find (\<lambda>f. Tag_Get_cdx f = string_of_rune field) CDXRecord_fields = Some f
        \<and> cdxField record f = VString old \<longrightarrow>
        cdx_setField record field ''-'' = Inr (cdxSet f (VString ''-'') record)
        \<and> cdxField (cdxSet f (VString ''-'') record) f = VString ''-'')"
proof (intro conjI impI)
  assume "v = VString [] \<or> v = VInt 0 \<or> v = VTime zero_time"
  then show "formatField v = ''-''" by (auto simp: IsZero_zero_time)
next
  assume "\<forall>field\<in>set flds. known_field field"
  then show "marshalRecord zero_CDXRecord flds delimiter
          = joinFields (replicate (length flds) ''-'') delimiter"
    by (rule marshalRecord_zero)
next
  assume a: "find (\<lambda>f. Tag_Get_cdx f = string_of_rune field) CDXRecord_fields = Some f
        \<and> cdxField record f = VString old"
  then show "cdx_setField record field ''-'' = Inr (cdxSet f (VString ''-'') record)"
    by (simp add: cdx_setField_def)
  from a show "cdxField (cdxSet f (VString ''-'') record) f = VString ''-''"
    by (simp add: cdxSet_string)
qed

text \<open>The theorem at the redirect column of the nine-column format.\<close>

theorem C6_witness:
  "formatField (VString []) = ''-''
   \<and> marshalRecord zero_CDXRecord CDX9 (CHR '' '') = ''- - - - - - - - -''
   \<and> find (\<lambda>f. Tag_Get_cdx f = string_of_rune (CHR ''r'')) CDXRecord_fields = Some CRedirect
   \<and> cdxField zero_CDXRecord CRedirect = VString []
   \<and> cdx_setField zero_CDXRecord (CHR ''r'') ''-'' = Inr (cdxSet CRedirect (VString ''-'') zero_CDXRecord)
   \<and> cdxField (cdxSet CRedirect (VString ''-'') zero_CDXRecord) CRedirect = VString ''-''"
proof -
  have k: "\<forall>field\<in>set CDX9. known_field field" by code_simp
  have f: "find (\<lambda>f. Tag_Get_cdx f = string_of_rune (CHR ''r'')) CDXRecord_fields = Some CRedirect"
    by code_simp
  have z: "cdxField zero_CDXRecord CRedirect = VString []" by (simp add: zero_CDXRecord_def)
  have j: "joinFields (replicate (length CDX9) ''-'') (CHR '' '') = ''- - - - - - - - -''"
    by code_simp
  from C6_sentinel [of "VString []" CDX9 "CHR '' ''" "CHR ''r''" CRedirect zero_CDXRecord "[]"] k f z j
  show ?thesis by simp
qed

text \<open>
  Claim C6 as stated fails: decoding \<^verbatim>\<open>-\<close> in the redirect column, a string, gives the
  string \<^verbatim>\<open>-\<close> and not the empty string (the decoder test of the repository expects
  this value).
\<close>

theorem C6_counterexample:
  "cdx_setField zero_CDXRecord (CHR ''r'') ''-'' = Inr (zero_CDXRecord\<lparr>Redirect := ''-''\<rparr>)
   \<and> Redirect (zero_CDXRecord\<lparr>Redirect := ''-''\<rparr>) \<noteq> []"
  by code_simp

section \<open>Properties of the stream segmenter\<close>

subsection \<open>The scanner\<close>

text \<open>The invariant of the buffer.\<close>

definition sinv :: "Scanner \<Rightarrow> bool" where
  "sinv s = (start s + length (buf s) \<le> bufLen s \<and> bufLen s \<le> MaxScanTokenSize)"

lemma Scan_token_now:
  assumes "buf s \<noteq> [] \<or> serr s \<noteq> None"
    and "splitf (buf s) (serr s \<noteq> None) = (a, Some t)" and "a \<le> length (buf s)"
  shows "Scan splitf s = (Some t, s\<lparr>start := start s + a, buf := drop a (buf s)\<rparr>)"
  using assms by (auto simp: Scan.simps [of splitf s])

lemma Scan_end:
  assumes "serr s \<noteq> None" and "splitf (buf s) True = (0, None)"
  shows "Scan splitf s = (None, s\<lparr>start := 0, buf := []\<rparr>)"
  using assms by (auto simp: Scan.simps [of splitf s])

lemma Scan_read:
  assumes "buf s = [] \<or> splitf (buf s) False = (0, None)" and "serr s = None"
    and "makeRoom s = Inr s2"
  shows "Scan splitf s = Scan splitf (readInput s2)"
proof -
  have "(if buf s \<noteq> [] \<or> serr s \<noteq> None then splitf (buf s) (serr s \<noteq> None) else (0, None))
          = (0, None)"
    using assms(1,2) by auto
  then show ?thesis
    using assms(2,3) by (subst Scan.simps) simp
qed

lemma makeRoom_ok:
  assumes "sinv s" and "length (buf s) < MaxScanTokenSize"
  shows "\<exists>s2. makeRoom s = Inr s2 \<and> buf s2 = buf s \<and> src s2 = src s \<and> serr s2 = serr s
           \<and> start s2 + length (buf s2) < bufLen s2 \<and> bufLen s2 \<le> MaxScanTokenSize"
  using assms
  by (auto simp: makeRoom_def sinv_def shift_def grow_def Let_def startBufSize_def
                 MaxScanTokenSize_def)

lemma readInput_data:
  assumes "src s \<noteq> []" and "start s + length (buf s) < bufLen s"
    and "bufLen s \<le> MaxScanTokenSize" and "serr s = None"
  shows "sinv (readInput s) \<and> serr (readInput s) = None
         \<and> buf (readInput s) @ src (readInput s) = buf s @ src s
         \<and> length (src (readInput s)) < length (src s)"
  using assms by (auto simp: readInput_def setErr_def sinv_def Let_def)

lemma readInput_eof: "src s = [] \<Longrightarrow> serr s = None \<Longrightarrow> readInput s = s\<lparr>serr := Some EOF\<rparr>"
  by (simp add: readInput_def setErr_def)

text \<open>One round of the loop that reads: the state before the next call of the split
  function.\<close>

lemma Scan_more:
  assumes nt: "buf s = [] \<or> splitf (buf s) False = (0, None)" and e: "serr s = None"
    and inv: "sinv s" and short: "length (buf s) < MaxScanTokenSize" and ne: "src s \<noteq> []"
  shows "\<exists>s'. Scan splitf s = Scan splitf s' \<and> sinv s' \<and> serr s' = None
           \<and> buf s' @ src s' = buf s @ src s \<and> length (src s') < length (src s)"
proof -
  from makeRoom_ok [OF inv short] obtain s2 where
    s2: "makeRoom s = Inr s2" "buf s2 = buf s" "src s2 = src s" "serr s2 = serr s"
        "start s2 + length (buf s2) < bufLen s2" "bufLen s2 \<le> MaxScanTokenSize"
    by blast
  have "Scan splitf s = Scan splitf (readInput s2)"
    using Scan_read [where s = s and splitf = splitf, OF nt e s2(1)] .
  moreover have "sinv (readInput s2) \<and> serr (readInput s2) = None
         \<and> buf (readInput s2) @ src (readInput s2) = buf s2 @ src s2
         \<and> length (src (readInput s2)) < length (src s2)"
    using ne e s2 by (intro readInput_data) simp_all
  ultimately show ?thesis using s2(2,3) by (intro exI [of _ "readInput s2"]) simp
qed

lemma Scan_eof:
  assumes nt: "buf s = [] \<or> splitf (buf s) False = (0, None)" and e: "serr s = None"
    and inv: "sinv s" and short: "length (buf s) < MaxScanTokenSize" and em: "src s = []"
  shows "\<exists>s'. Scan splitf s = Scan splitf s' \<and> sinv s' \<and> serr s' = Some EOF
           \<and> buf s' = buf s \<and> src s' = []"
proof -
  from makeRoom_ok [OF inv short] obtain s2 where
    s2: "makeRoom s = Inr s2" "buf s2 = buf s" "src s2 = src s" "serr s2 = serr s"
        "start s2 + length (buf s2) < bufLen s2" "bufLen s2 \<le> MaxScanTokenSize"
    by blast
  have "Scan splitf s = Scan splitf (readInput s2)"
    using Scan_read [where s = s and splitf = splitf, OF nt e s2(1)] .
  moreover have "readInput s2 = s2\<lparr>serr := Some EOF\<rparr>"
    using em e s2(3,4) by (simp add: readInput_eof)
  ultimately show ?thesis
    using s2 em by (intro exI [of _ "s2\<lparr>serr := Some EOF\<rparr>"]) (simp add: sinv_def)
qed

text \<open>A token that the split function finds once it sees \<open>m\<close> bytes of the input.\<close>

lemma Scan_token:
  assumes "sinv s" and "serr s = None"
    and more: "\<And>d. prefix d (buf s @ src s) \<Longrightarrow> d \<noteq> [] \<Longrightarrow> length d < m \<Longrightarrow> splitf d False = (0, None)"
    and tok: "\<And>d. prefix d (buf s @ src s) \<Longrightarrow> m \<le> length d \<Longrightarrow> splitf d False = (n, Some t)"
    and "m \<le> length (buf s @ src s)" and "0 < m" and "m \<le> MaxScanTokenSize" and "n \<le> m"
  shows "\<exists>s'. Scan splitf s = (Some t, s') \<and> buf s' @ src s' = drop n (buf s @ src s)
           \<and> sinv s' \<and> serr s' = None"
  using assms
proof (induction "length (src s)" arbitrary: s rule: less_induct)
  case less
  show ?case
  proof (cases "m \<le> length (buf s)")
    case True
    have ne: "buf s \<noteq> [] \<or> serr s \<noteq> None" using True less.prems(6) by auto
    have "splitf (buf s) (serr s \<noteq> None) = (n, Some t)"
      using less.prems(4) [of "buf s"] True less.prems(2) by simp
    from Scan_token_now [where s = s and splitf = splitf, OF ne this] True less.prems(8)
    have "Scan splitf s = (Some t, s\<lparr>start := start s + n, buf := drop n (buf s)\<rparr>)" by simp
    moreover have "sinv (s\<lparr>start := start s + n, buf := drop n (buf s)\<rparr>)"
      using less.prems(1) True less.prems(8) by (simp add: sinv_def)
    ultimately show ?thesis using True less.prems(2,8) by simp
  next
    case False
    have nt: "buf s = [] \<or> splitf (buf s) False = (0, None)"
      using less.prems(3) [of "buf s"] False by auto
    have short: "length (buf s) < MaxScanTokenSize" using False less.prems(7) by simp
    have ne: "src s \<noteq> []" using False less.prems(5) by auto
    from Scan_more [where s = s and splitf = splitf, OF nt less.prems(2) less.prems(1) short ne] obtain s' where
      s': "Scan splitf s = Scan splitf s'" "sinv s'" "serr s' = None"
          "buf s' @ src s' = buf s @ src s" "length (src s') < length (src s)"
      by blast
    have "\<exists>s''. Scan splitf s' = (Some t, s'') \<and> buf s'' @ src s'' = drop n (buf s' @ src s')
           \<and> sinv s'' \<and> serr s'' = None"
      using s' less.prems by (intro less.hyps) simp_all
    then show ?thesis using s'(1,4) by simp
  qed
qed

text \<open>The last token, which the split function gives only at the end of the input.\<close>

lemma Scan_last:
  assumes "sinv s" and "serr s = None" and "buf s @ src s \<noteq> []"
    and "length (buf s @ src s) < MaxScanTokenSize"
    and more: "\<And>d. prefix d (buf s @ src s) \<Longrightarrow> d \<noteq> [] \<Longrightarrow> splitf d False = (0, None)"
    and tok: "splitf (buf s @ src s) True = (n, Some t)" and "n \<le> length (buf s @ src s)"
  shows "\<exists>s'. Scan splitf s = (Some t, s') \<and> buf s' = drop n (buf s @ src s) \<and> src s' = []
           \<and> sinv s' \<and> serr s' = Some EOF"
  using assms
proof (induction "length (src s)" arbitrary: s rule: less_induct)
  case less
  have nt: "buf s = [] \<or> splitf (buf s) False = (0, None)"
    using less.prems(5) [of "buf s"] by auto
  have short: "length (buf s) < MaxScanTokenSize" using less.prems(4) by simp
  show ?case
  proof (cases "src s = []")
    case True
    from Scan_eof [where s = s and splitf = splitf, OF nt less.prems(2) less.prems(1) short True] obtain s' where
      s': "Scan splitf s = Scan splitf s'" "sinv s'" "serr s' = Some EOF" "buf s' = buf s"
          "src s' = []"
      by blast
    have ne: "buf s' \<noteq> [] \<or> serr s' \<noteq> None" using s'(3) by simp
    have "splitf (buf s') (serr s' \<noteq> None) = (n, Some t)"
      using less.prems(6) True s'(3,4) by simp
    from Scan_token_now [where s = s' and splitf = splitf, OF ne this] less.prems(7) True s'(4)
    have "Scan splitf s' = (Some t, s'\<lparr>start := start s' + n, buf := drop n (buf s')\<rparr>)" by simp
    moreover have "sinv (s'\<lparr>start := start s' + n, buf := drop n (buf s')\<rparr>)"
      using s'(2,4) less.prems(7) True by (simp add: sinv_def)
    ultimately show ?thesis using s' True by simp
  next
    case False
    from Scan_more [where s = s and splitf = splitf, OF nt less.prems(2) less.prems(1) short False] obtain s' where
      s': "Scan splitf s = Scan splitf s'" "sinv s'" "serr s' = None"
          "buf s' @ src s' = buf s @ src s" "length (src s') < length (src s)"
      by blast
    have "\<exists>s''. Scan splitf s' = (Some t, s'') \<and> buf s'' = drop n (buf s' @ src s') \<and> src s'' = []
           \<and> sinv s'' \<and> serr s'' = Some EOF"
      using s' less.prems by (intro less.hyps) simp_all
    then show ?thesis using s'(1,4) by simp
  qed
qed

text \<open>No token is left.\<close>

lemma Scan_done:
  assumes "sinv s" and "serr s = None \<or> serr s = Some EOF" and "buf s = []" and "src s = []"
    and "splitf [] True = (0, None)"
  shows "\<exists>s'. Scan splitf s = (None, s') \<and> buf s' = [] \<and> src s' = [] \<and> serr s' = Some EOF"
proof (cases "serr s = None")
  case True
  have short: "length (buf s) < MaxScanTokenSize" using assms(3) by (simp add: MaxScanTokenSize_def)
  from Scan_eof [where s = s and splitf = splitf, OF _ True assms(1) short assms(4)] assms(3) obtain s' where
    s': "Scan splitf s = Scan splitf s'" "sinv s'" "serr s' = Some EOF" "buf s' = buf s"
        "src s' = []"
    by auto
  from Scan_end [of s' splitf] s' assms(3,5) show ?thesis by simp
next
  case False
  with assms(2) have "serr s = Some EOF" by simp
  with Scan_end [of s splitf] assms(3,4,5) show ?thesis by simp
qed

subsection \<open>Occurrences of the marker\<close>

lemma bytes_Index_None:
  "bytes_Index xs p = None \<Longrightarrow> k \<le> length xs \<Longrightarrow> \<not> prefix p (drop k xs)"
proof (induction xs arbitrary: k)
  case Nil
  then show ?case by (simp split: if_splits)
next
  case (Cons c cs)
  then show ?case by (cases k) (auto split: if_splits)
qed

lemma bytes_Index_NoneI:
  assumes "\<And>k. k \<le> length xs \<Longrightarrow> \<not> prefix p (drop k xs)"
  shows "bytes_Index xs p = None"
proof (cases "bytes_Index xs p")
  case None
  then show ?thesis .
next
  case (Some i)
  from bytes_Index_Some [OF Some] assms [of i] show ?thesis by simp
qed

lemma bytes_Index_SomeI:
  assumes "prefix p (drop i xs)" and "i \<le> length xs" and "\<And>k. k < i \<Longrightarrow> \<not> prefix p (drop k xs)"
  shows "bytes_Index xs p = Some i"
proof (cases "bytes_Index xs p")
  case None
  from bytes_Index_None [OF None assms(2)] assms(1) show ?thesis by simp
next
  case (Some j)
  from bytes_Index_Some [OF Some] have j: "prefix p (drop j xs)" "\<forall>k<j. \<not> prefix p (drop k xs)"
    by simp_all
  have "\<not> j < i" using assms(3) j(1) by blast
  moreover have "\<not> i < j" using j(2) assms(1) by blast
  ultimately show ?thesis using Some by simp
qed

lemma prefix_drop_mono: "prefix d xs \<Longrightarrow> prefix p (drop k d) \<Longrightarrow> prefix p (drop k xs)"
  by (auto simp: prefix_def)

text \<open>The marker does not overlap itself: an occurrence cannot begin in the last four
  bytes before another one.\<close>

lemma short_list_cases:
  assumes "t \<noteq> []" and "length t < 5"
  shows "(\<exists>a. t = [a]) \<or> (\<exists>a b. t = [a, b]) \<or> (\<exists>a b c. t = [a, b, c])
         \<or> (\<exists>a b c d. t = [a, b, c, d])"
proof (cases t)
  case Nil
  with assms(1) show ?thesis by simp
next
  case (Cons a t1)
  show ?thesis
  proof (cases t1)
    case Nil
    with Cons show ?thesis by simp
  next
    case (Cons b t2)
    note t1 = Cons
    show ?thesis
    proof (cases t2)
      case Nil
      with \<open>t = a # t1\<close> t1 show ?thesis by simp
    next
      case (Cons c t3)
      note t2 = Cons
      show ?thesis
      proof (cases t3)
        case Nil
        with \<open>t = a # t1\<close> t1 t2 show ?thesis by simp
      next
        case (Cons d t4)
        with \<open>t = a # t1\<close> t1 t2 assms(2) have "t4 = []" by simp
        with \<open>t = a # t1\<close> t1 t2 Cons show ?thesis by simp
      qed
    qed
  qed
qed

lemma marker_no_overlap:
  assumes "t \<noteq> []" and "length t < 5"
  shows "\<not> prefix marker (t @ marker @ r)"
  using short_list_cases [OF assms] by (auto simp: marker_def)

lemma prefix_of_append_long:
  assumes "prefix p (t @ x)" and "length p \<le> length t"
  shows "prefix p t"
proof -
  from assms(1) obtain z where "t @ x = p @ z" by (auto simp: prefix_def)
  then have e1: "take (length p) (t @ x) = p" by simp
  have e2: "take (length p) (t @ x) = take (length p) t" using assms(2) by simp
  have "take (length p) t = p" by (rule trans [OF e2 [symmetric] e1])
  then show ?thesis by (metis take_is_prefix)
qed

lemma marker_not_inside:
  assumes "bytes_Index b marker = None" and "k < length b"
  shows "\<not> prefix marker (drop k (b @ marker @ r))"
proof
  assume p: "prefix marker (drop k (b @ marker @ r))"
  let ?t = "drop k b"
  have t: "?t \<noteq> []" using assms(2) by simp
  have d: "drop k (b @ marker @ r) = ?t @ marker @ r" using assms(2) by simp
  show False
  proof (cases "length ?t < 5")
    case True
    from marker_no_overlap [OF t True] p d show False by simp
  next
    case False
    then have "length marker \<le> length ?t" by (simp add: marker_def)
    moreover from p d have "prefix marker (?t @ marker @ r)" by simp
    ultimately have "prefix marker ?t" by (rule prefix_of_append_long [rotated])
    moreover have "\<not> prefix marker ?t" using bytes_Index_None [OF assms(1), of k] assms(2) by simp
    ultimately show False by simp
  qed
qed

lemma index_after_body:
  assumes "bytes_Index b marker = None"
  shows "bytes_Index (b @ marker @ r) marker = Some (length b)"
proof (rule bytes_Index_SomeI)
  show "prefix marker (drop (length b) (b @ marker @ r))" by simp
  show "length b \<le> length (b @ marker @ r)" by simp
  fix k assume "k < length b"
  then show "\<not> prefix marker (drop k (b @ marker @ r))"
    by (rule marker_not_inside [OF assms])
qed

lemma index_short_prefix:
  assumes free: "bytes_Index b marker = None" and pre: "prefix d (b @ marker @ r)"
    and short: "length d < length b + 5"
  shows "bytes_Index d marker = None"
proof (rule bytes_Index_NoneI)
  fix k assume k: "k \<le> length d"
  show "\<not> prefix marker (drop k d)"
  proof
    assume p: "prefix marker (drop k d)"
    then have "length marker \<le> length (drop k d)" by (rule prefix_length_le)
    then have "k < length b" using short by (simp add: marker_def)
    with marker_not_inside [OF free this] prefix_drop_mono [OF pre p] show False by simp
  qed
qed

lemma index_prefix_of_body:
  assumes free: "bytes_Index b marker = None" and pre: "prefix d b"
  shows "bytes_Index d marker = None"
proof (rule bytes_Index_NoneI)
  fix k assume k: "k \<le> length d"
  have "length d \<le> length b" using pre by (rule prefix_length_le)
  with k bytes_Index_None [OF free, of k] have "\<not> prefix marker (drop k b)" by simp
  with prefix_drop_mono [OF pre] show "\<not> prefix marker (drop k d)" by blast
qed

lemma index_marker_first: "prefix marker d \<Longrightarrow> bytes_Index d marker = Some 0"
proof (cases d)
  case Nil
  assume "prefix marker d"
  with Nil show ?thesis by (simp add: marker_def)
next
  case (Cons c cs)
  assume "prefix marker d"
  with Cons show ?thesis by simp
qed

lemma index_too_short: "length d < 5 \<Longrightarrow> bytes_Index d marker = None"
proof (rule bytes_Index_NoneI)
  fix k assume "length d < 5"
  then have l: "length (drop k d) < length marker" by (simp add: marker_def)
  show "\<not> prefix marker (drop k d)"
  proof
    assume "prefix marker (drop k d)"
    then have "length marker \<le> length (drop k d)" by (rule prefix_length_le)
    with l show False by simp
  qed
qed

subsection \<open>Chunks of a stream of records\<close>

lemma NewWARC_split_empty: "NewWARC_split [] True = (0, None)"
  by (simp add: NewWARC_split_def)

text \<open>The split function on a record \<open>marker @ b\<close> that another record follows.\<close>

lemma split_wait:
  assumes free: "bytes_Index b marker = None"
    and pre: "prefix d (marker @ b @ marker @ r)" and "d \<noteq> []" and short: "length d < length b + 10"
  shows "NewWARC_split d False = (0, None)"
proof (cases "length d < 5")
  case True
  then show ?thesis by (simp add: NewWARC_split_marker index_too_short)
next
  case False
  then have "length marker \<le> length d" by (simp add: length_marker)
  with pre have m: "prefix marker d"
    by (metis prefix_length_prefix prefix_order.dual_order.refl prefixI append.assoc)
  then obtain d' where d: "d = marker @ d'" by (auto simp: prefix_def)
  with pre have pre': "prefix d' (b @ marker @ r)" by simp
  have "length d' < length b + 5" using short d by (simp add: length_marker)
  from index_short_prefix [OF free pre' this] have "bytes_Index (drop 5 d) marker = None"
    using d by (simp add: length_marker)
  with index_marker_first [OF m] show ?thesis by (simp add: NewWARC_split_marker)
qed

lemma split_token:
  assumes free: "bytes_Index b marker = None"
    and pre: "prefix d (marker @ b @ marker @ r)" and long: "length b + 10 \<le> length d"
  shows "NewWARC_split d False = (length b + 5, Some (marker @ b))"
proof -
  have "length (marker @ b @ marker) \<le> length d" using long by (simp add: length_marker)
  with pre have "prefix (marker @ b @ marker) d"
    by (metis prefix_length_prefix prefixI append.assoc)
  then obtain r' where d: "d = marker @ b @ marker @ r'" by (auto simp: prefix_def)
  have m: "prefix marker d" using d by simp
  have "bytes_Index (drop 5 d) marker = Some (length b)"
    using index_after_body [OF free, of r'] d by (simp add: length_marker)
  with index_marker_first [OF m] d show ?thesis
    by (simp add: NewWARC_split_marker length_marker)
qed

text \<open>The split function on the last record of the input.\<close>

lemma split_wait_last:
  assumes free: "bytes_Index b marker = None" and pre: "prefix d (marker @ b)" and "d \<noteq> []"
  shows "NewWARC_split d False = (0, None)"
proof (cases "length d < 5")
  case True
  then show ?thesis by (simp add: NewWARC_split_marker index_too_short)
next
  case False
  then have "length marker \<le> length d" by (simp add: length_marker)
  with pre have m: "prefix marker d"
    by (metis prefix_length_prefix prefixI)
  then obtain d' where d: "d = marker @ d'" by (auto simp: prefix_def)
  with pre have pre': "prefix d' b" by simp
  from index_prefix_of_body [OF free pre'] have "bytes_Index (drop 5 d) marker = None"
    using d by (simp add: length_marker)
  with index_marker_first [OF m] show ?thesis by (simp add: NewWARC_split_marker)
qed

lemma split_last:
  assumes free: "bytes_Index b marker = None"
  shows "NewWARC_split (marker @ b) True = (length (marker @ b), Some (marker @ b))"
proof -
  have m: "prefix marker (marker @ b)" by simp
  have "bytes_Index (drop 5 (marker @ b)) marker = None" using free by (simp add: length_marker)
  with index_marker_first [OF m] show ?thesis
    by (simp add: NewWARC_split_marker marker_def)
qed

lemma chunks_records:
  assumes "\<forall>b\<in>set bodies. record_body b"
    and "sinv s" and "serr s = None"
    and "buf s @ src s = concat (map (\<lambda>b. marker @ b) bodies)"
  shows "chunks \<lparr>scanner = s\<rparr> = map (\<lambda>b. marker @ b) bodies"
  using assms
proof (induction bodies arbitrary: s)
  case Nil
  then have "buf s = []" "src s = []" by simp_all
  from Scan_done [where s = s and splitf = NewWARC_split, OF Nil(2) _ this NewWARC_split_empty] Nil(3)
  obtain s' where "Scan NewWARC_split s = (None, s')" by auto
  then show ?case by (simp add: chunks.simps [of "\<lparr>scanner = s\<rparr>"] NextChunk_def)
next
  case (Cons b bodies)
  from Cons.prems(1) have free: "bytes_Index b marker = None"
    and fit: "length b + 10 \<le> MaxScanTokenSize"
    by (simp_all add: record_body_def)
  show ?case
  proof (cases bodies)
    case Nil
    with Cons.prems(4) have stream: "buf s @ src s = marker @ b" by simp
    have "\<exists>s'. Scan NewWARC_split s = (Some (marker @ b), s')
            \<and> buf s' = drop (length (marker @ b)) (buf s @ src s) \<and> src s' = []
            \<and> sinv s' \<and> serr s' = Some EOF"
    proof (rule Scan_last [OF Cons.prems(2,3)])
      show "buf s @ src s \<noteq> []" using stream by (simp add: marker_def)
      show "length (buf s @ src s) < MaxScanTokenSize"
        using stream fit by (simp add: length_marker)
      show "NewWARC_split d False = (0, None)" if "prefix d (buf s @ src s)" "d \<noteq> []" for d
        using split_wait_last [OF free] that stream by simp
      show "NewWARC_split (buf s @ src s) True = (length (marker @ b), Some (marker @ b))"
        using split_last [OF free] stream by simp
      show "length (marker @ b) \<le> length (buf s @ src s)" using stream by simp
    qed
    then obtain s' where s': "Scan NewWARC_split s = (Some (marker @ b), s')"
      "buf s' = []" "src s' = []" "sinv s'" "serr s' = Some EOF"
      using stream by auto
    from Scan_done [where s = s' and splitf = NewWARC_split, OF s'(4) _ s'(2,3) NewWARC_split_empty] s'(5)
    obtain s'' where "Scan NewWARC_split s' = (None, s'')" by auto
    with s'(1) Nil show ?thesis
      by (simp add: chunks.simps [of "\<lparr>scanner = s\<rparr>"] chunks.simps [of "\<lparr>scanner = s'\<rparr>"]
                    NextChunk_def)
  next
    case (Cons b' bodies')
    let ?rest = "concat (map (\<lambda>b. marker @ b) bodies)"
    obtain r where r: "?rest = marker @ r" using Cons by simp
    with Cons.prems(4) have stream: "buf s @ src s = marker @ b @ marker @ r"
      by simp
    have "\<exists>s'. Scan NewWARC_split s = (Some (marker @ b), s')
            \<and> buf s' @ src s' = drop (length b + 5) (buf s @ src s) \<and> sinv s' \<and> serr s' = None"
    proof (rule Scan_token [OF Cons.prems(2,3), where m = "length b + 10"])
      show "NewWARC_split d False = (0, None)"
        if "prefix d (buf s @ src s)" "d \<noteq> []" "length d < length b + 10" for d
        using split_wait [OF free _ that(2,3)] that(1) stream by simp
      show "NewWARC_split d False = (length b + 5, Some (marker @ b))"
        if "prefix d (buf s @ src s)" "length b + 10 \<le> length d" for d
        using split_token [OF free _ that(2)] that(1) stream by simp
      show "length b + 10 \<le> length (buf s @ src s)" using stream by (simp add: length_marker)
      show "0 < length b + 10" by simp
      show "length b + 10 \<le> MaxScanTokenSize" by (rule fit)
      show "length b + 5 \<le> length b + 10" by simp
    qed
    then obtain s' where s': "Scan NewWARC_split s = (Some (marker @ b), s')"
      "buf s' @ src s' = ?rest" "sinv s'" "serr s' = None"
      using stream r by (auto simp: length_marker)
    have "chunks \<lparr>scanner = s'\<rparr> = map (\<lambda>b. marker @ b) bodies"
      using Cons.prems(1) s' by (intro Cons.IH) simp_all
    with s'(1) show ?thesis
      by (simp add: chunks.simps [of "\<lparr>scanner = s\<rparr>"] NextChunk_def)
  qed
qed

text \<open>
  Claim C1, as amended. The input is a sequence of records back to back, each the
  marker \<^verbatim>\<open>WARC/\<close> followed by bytes in which the marker does not occur again, and each
  short enough for the scanner. Then the calls of \<open>NextChunk\<close> give exactly these
  records, one chunk for each, in order, and then the end of the input; a chunk being
  the record itself, it decodes as the record does. The boundary search scans all the
  bytes after the opening marker, content payload included, so the claim needs the
  hypothesis that no payload holds the marker.
\<close>

theorem C1_chunks_of_marker_free_records:
  assumes "\<forall>b\<in>set bodies. record_body b"
  shows "chunks (NewWARC (concat (map (\<lambda>b. marker @ b) bodies))) = map (\<lambda>b. marker @ b) bodies"
  unfolding NewWARC_def
  by (rule chunks_records [OF assms]) (simp_all add: NewScanner_def sinv_def)

text \<open>The theorem on the stream of two of the example records.\<close>

theorem C1_witness:
  "record_body (drop 5 spec_example) \<and> record_body (drop 5 no_id_block)
   \<and> chunks (NewWARC (spec_example @ no_id_block)) = [spec_example, no_id_block]"
proof -
  have "bytes_Index (drop 5 spec_example) marker = None" by code_simp
  moreover have "length (drop 5 spec_example) < 1000" by code_simp
  ultimately have 1: "record_body (drop 5 spec_example)"
    by (simp add: record_body_def MaxScanTokenSize_def)
  have "bytes_Index (drop 5 no_id_block) marker = None" by code_simp
  moreover have "length (drop 5 no_id_block) < 1000" by code_simp
  ultimately have 2: "record_body (drop 5 no_id_block)"
    by (simp add: record_body_def MaxScanTokenSize_def)
  have e1: "marker @ drop 5 spec_example = spec_example" by code_simp
  have e2: "marker @ drop 5 no_id_block = no_id_block" by code_simp
  from C1_chunks_of_marker_free_records [of "[drop 5 spec_example, drop 5 no_id_block]"] 1 2
  have "chunks (NewWARC (concat (map (\<lambda>b. marker @ b) [drop 5 spec_example, drop 5 no_id_block])))
          = map (\<lambda>b. marker @ b) [drop 5 spec_example, drop 5 no_id_block]"
    by simp
  then have "chunks (NewWARC (spec_example @ no_id_block)) = [spec_example, no_id_block]"
    by (simp only: list.map concat.simps append_Nil2 e1 e2)
  with 1 2 show ?thesis by simp
qed

text \<open>
  Claim C1 as stated fails: the stream is one well-formed record whose payload is the
  five bytes \<^verbatim>\<open>WARC/\<close>, that \<open>Valid\<close> accepts and \<open>Unmarshal\<close> decodes with that content,
  and the segmenter gives two chunks, the record without its payload and the payload.
\<close>

theorem C1_counterexample:
  "Valid marker_payload_record = None \<and>
   Unmarshal marker_payload_record (Ptr zero_WARCRecord) =
     Inr (zero_WARCRecord\<lparr>Version := ''1.0'', RecordID := ''<urn:uuid:abc>'',
            Date := UTC 2024 1 1 10 0 0, Type := ''resource'', Content := ''WARC/''\<rparr>) \<and>
   chunks (NewWARC marker_payload_record) = [''WARC/'' @ marker_payload_body, ''WARC/'']"
proof -
  have 1: "Valid marker_payload_record = None" by code_simp
  have 2: "Unmarshal marker_payload_record (Ptr zero_WARCRecord) =
     Inr (zero_WARCRecord\<lparr>Version := ''1.0'', RecordID := ''<urn:uuid:abc>'',
            Date := UTC 2024 1 1 10 0 0, Type := ''resource'', Content := ''WARC/''\<rparr>)"
    by code_simp
  have "bytes_Index marker_payload_body marker = None" by code_simp
  moreover have "length marker_payload_body + 10 \<le> MaxScanTokenSize"
    by (simp add: marker_payload_body_def CRLF_def date_line_def MaxScanTokenSize_def)
  moreover have "bytes_Index [] marker = None" by code_simp
  ultimately have b: "\<forall>b\<in>set [marker_payload_body, []]. record_body b"
    by (simp add: record_body_def MaxScanTokenSize_def)
  have "chunks \<lparr>scanner = NewScanner marker_payload_record\<rparr>
          = map (\<lambda>b. marker @ b) [marker_payload_body, []]"
    by (rule chunks_records [OF b])
       (simp_all add: NewScanner_def sinv_def marker_payload_record_def marker_def)
  then have 3: "chunks (NewWARC marker_payload_record) = [''WARC/'' @ marker_payload_body, ''WARC/'']"
    by (simp add: NewWARC_def marker_def)
  from 1 2 3 show ?thesis by (simp only: simp_thms)
qed

end
